theory Spec2Isabelle
  imports Main "HOL-Library.Log_Nat"
begin

section \<open>JavaScript numbers\<close>

text \<open>
  A finite JavaScript Number is an IEEE 754 binary64 value, hence a rational number. The
  model keeps numbers as \<open>rat\<close> and rounds the result of every arithmetic operation of the
  source with \<open>fl\<close>: round to nearest, ties to even, 53 significant bits, subnormal
  numbers below \<open>2 powi (- 1022)\<close>. Overflow to Infinity is outside the model: every number the
  player computes is at most 100 in absolute value.

  \<open>bexp x\<close> is the exponent of the binade of \<open>x\<close>, \<open>quantum x\<close> the spacing of the binary64
  numbers there, \<open>rne\<close> rounds a rational to the nearest integer, ties to even.
\<close>

definition bexp :: "rat \<Rightarrow> int" where
  "bexp x = (let a = \<lfloor>\<bar>x\<bar>\<rfloor> in
     if 1 \<le> a then bitlen a - 1
     else if x = 0 then - 1022
     else max (- 1022) (- bitlen (\<lceil>1 / \<bar>x\<bar>\<rceil> - 1)))"

definition quantum :: "rat \<Rightarrow> rat" where
  "quantum x = 2 powi (bexp x - 52)"

definition rne :: "rat \<Rightarrow> int" where
  "rne r = (let n = \<lfloor>r\<rfloor>; f = r - of_int n in
     if f < 1 / 2 then n else if 1 / 2 < f then n + 1 else if even n then n else n + 1)"

definition fl :: "rat \<Rightarrow> rat" where
  "fl x = of_int (rne (x / quantum x)) * quantum x"

text \<open>The binary64 numbers are the fixed points of the rounding.\<close>

definition is_double :: "rat \<Rightarrow> bool" where
  "is_double x = (fl x = x)"

text \<open>\<open>null\<close> converts to the number 0 in arithmetic.\<close>

fun toNumber :: "rat option \<Rightarrow> rat" where
  "toNumber None = 0"
| "toNumber (Some x) = x"

fun toInteger :: "int option \<Rightarrow> int" where
  "toInteger None = 0"
| "toInteger (Some i) = i"

section \<open>DOM elements and their event listener lists\<close>

text \<open>
  The part of a DOM element the player touches: tag, attributes, text and the event
  listener list. \<open>addEventListener\<close> ignores a listener that is already in the list (same
  event type and callback), \<open>removeEventListener\<close> removes the matching one, so the list
  never holds a listener twice. The value of an attribute is a text, or the decimal text
  of a number (\<open>None\<close> is NaN), kept as the number.
\<close>

datatype attribute_value = Text string | NumberText "rat option"

record 'cb html_element =
  tagName :: string
  attributes :: "string \<rightharpoonup> attribute_value"
  innerText :: string
  listenerList :: "(string \<times> 'cb) list"

definition createElement :: "string \<Rightarrow> 'cb html_element" where
  "createElement htmlTag =
     \<lparr>tagName = htmlTag, attributes = Map.empty, innerText = [], listenerList = []\<rparr>"

definition addEventListener ::
  "string \<Rightarrow> 'cb \<Rightarrow> ('cb, 'z) html_element_scheme \<Rightarrow> ('cb, 'z) html_element_scheme" where
  "addEventListener ev cb el =
     (if (ev, cb) \<in> set (listenerList el) then el
      else el\<lparr>listenerList := listenerList el @ [(ev, cb)]\<rparr>)"

definition removeEventListener ::
  "string \<Rightarrow> 'cb \<Rightarrow> ('cb, 'z) html_element_scheme \<Rightarrow> ('cb, 'z) html_element_scheme" where
  "removeEventListener ev cb el = el\<lparr>listenerList := remove1 (ev, cb) (listenerList el)\<rparr>"

text \<open>The callbacks the element invokes, in order, when an event of type \<open>ev\<close> is dispatched.\<close>

definition invoked :: "('cb, 'z) html_element_scheme \<Rightarrow> string \<Rightarrow> 'cb list" where
  "invoked el ev = map snd (filter (\<lambda>l. fst l = ev) (listenerList el))"

section \<open>RiitimusEmbeddableAudioPlayerElement\<close>

text \<open>
  The wrapper class: the created element and the list of the listeners added through
  \<open>on\<close>. (The \<open>children\<close> table and \<open>addChild\<close> are not modelled.)
\<close>

record 'cb element =
  htmlElement :: "'cb html_element"
  eventListeners :: "(string \<times> 'cb) list"

definition new_Element :: "string \<Rightarrow> (string \<times> attribute_value) list \<Rightarrow> 'cb element" where
  "new_Element htmlTag attrs =
     \<lparr>htmlElement =
        foldl (\<lambda>el (attribute, v). el\<lparr>attributes := (attributes el)(attribute \<mapsto> v)\<rparr>)
          (createElement htmlTag) attrs,
      eventListeners = []\<rparr>"

definition removeEventListeners :: "'cb element \<Rightarrow> 'cb element" where
  "removeEventListeners this =
     this\<lparr>htmlElement :=
       foldl (\<lambda>el (ev, cb). removeEventListener ev cb el) (htmlElement this) (eventListeners this)\<rparr>"

definition setText :: "string \<Rightarrow> 'cb element \<Rightarrow> 'cb element" where
  "setText text this = this\<lparr>htmlElement := (htmlElement this)\<lparr>innerText := text\<rparr>\<rparr>"

definition setAttribute :: "string \<Rightarrow> attribute_value \<Rightarrow> 'cb element \<Rightarrow> 'cb element" where
  "setAttribute attributeName attributeValue this =
     this\<lparr>htmlElement :=
       (htmlElement this)\<lparr>attributes := (attributes (htmlElement this))(attributeName \<mapsto> attributeValue)\<rparr>\<rparr>"

definition on :: "string \<Rightarrow> 'cb \<Rightarrow> 'cb element \<Rightarrow> 'cb element" where
  "on ev cb this =
     this\<lparr>eventListeners := eventListeners this @ [(ev, cb)],
          htmlElement := addEventListener ev cb (htmlElement this)\<rparr>"

text \<open>The calls a client can make on a node after its construction.\<close>

datatype 'cb element_call =
    On string 'cb
  | SetText string
  | SetAttribute string attribute_value
  | RemoveEventListeners

fun call_element :: "'cb element \<Rightarrow> 'cb element_call \<Rightarrow> 'cb element" where
  "call_element this (On ev cb) = on ev cb this"
| "call_element this (SetText text) = setText text this"
| "call_element this (SetAttribute n v) = setAttribute n v this"
| "call_element this RemoveEventListeners = removeEventListeners this"

section \<open>Audio elements\<close>

text \<open>
  An \<open>Audio\<close> object is an element with a source, a volume between 0 and 1, a paused
  flag, a playback position and a duration (\<open>None\<close>: not known yet). A new one is paused,
  at full volume, at position 0. The callbacks on audio elements are the three closures
  that \<open>setCurrentAudio\<close> creates.
\<close>

datatype audio_callback = TimeupdateListener | LoadeddataListener | LoadedmetadataListener

record audio = "audio_callback html_element" +
  src :: string
  volume :: rat
  paused :: bool
  currentTime :: rat
  duration :: "rat option"

definition new_Audio :: "string \<Rightarrow> audio" where
  "new_Audio url =
     \<lparr>tagName = ''audio'',
      attributes = [''preload'' \<mapsto> Text ''auto'', ''src'' \<mapsto> Text url],
      innerText = [], listenerList = [],
      src = url, volume = 1, paused = True, currentTime = 0, duration = None\<rparr>"

section \<open>RiitimusEmbeddableAudioPlayer\<close>

text \<open>
  An entry of \<open>options.srcs\<close> is a string (the source of the audio) or a structure with
  the source of the audio and, optionally, of the cover image.
\<close>

datatype track = Bare string | Structure string "string option"

text \<open>\<open>srcs[index]\<close>: \<open>None\<close> is \<open>undefined\<close>, what an index outside the list reads.\<close>

definition srcs_at :: "track list \<Rightarrow> int \<Rightarrow> track option" where
  "srcs_at ts index =
     (if 0 \<le> index \<and> index < int (length ts) then Some (ts ! nat index) else None)"

text \<open>The truthiness of \<open>srcs[index]\<close>: \<open>undefined\<close> and the empty string are falsy.\<close>

fun truthy :: "track option \<Rightarrow> bool" where
  "truthy None = False"
| "truthy (Some (Bare url)) = (url \<noteq> [])"
| "truthy (Some (Structure url cover)) = True"

datatype error = TypeError | IndexSizeError

datatype log_entry =
    CurrentPlayingAudioOfIndex "int option"
  | AudioVolumeChangedTo rat
  | AudioPlaybackProgressChangedToSecond rat
  | AudioIsNowPlaying
  | AudioIsNowPaused
  | SkipNextLine

text \<open>The listeners that \<open>_mount\<close> adds to the controls.\<close>

datatype ui_callback =
    MuteClick | VolumeInput | ProgressInput | PreviousClick | NextClick | ToggleClick | NextInput

text \<open>
  The state of a player: its options, its fields, the audio objects created so far
  (\<open>heap\<close>; an audio object is named by its position there, and \<open>_currentAudio\<close> holds
  such a name or \<open>null\<close>), the scrub bar
  \<open>_elements.audioControls.children.audioPlaybackProgressControl\<close> and the lines written
  to the console.
\<close>

record player =
  srcs :: "track list"
  autoplay :: "bool option"
  currentAudio :: "nat option"
  currentAudioIndex :: "int option"
  lastAudioVolume :: "rat option"
  heap :: "audio list"
  audioPlaybackProgressControl :: "ui_callback element"
  console :: "log_entry list"

text \<open>
  A method returns, or throws after having changed part of the state: both outcomes
  carry the state they leave.
\<close>

datatype outcome = Done player | Raised error player

fun state_of :: "outcome \<Rightarrow> player" where
  "state_of (Done s) = s"
| "state_of (Raised e s) = s"

fun andThen :: "outcome \<Rightarrow> (player \<Rightarrow> outcome) \<Rightarrow> outcome" where
  "andThen (Done s) f = f s"
| "andThen (Raised e s) f = Raised e s"

definition console_log :: "log_entry \<Rightarrow> player \<Rightarrow> player" where
  "console_log line s = s\<lparr>console := console s @ [line]\<rparr>"

definition update_audio :: "nat \<Rightarrow> (audio \<Rightarrow> audio) \<Rightarrow> player \<Rightarrow> player" where
  "update_audio a f s = s\<lparr>heap := (heap s)[a := f (heap s ! a)]\<rparr>"

text \<open>The constructor, with the scrub bar as \<open>_mount\<close> builds it.\<close>

definition new_Player :: "track list \<Rightarrow> bool option \<Rightarrow> player" where
  "new_Player tracks auto =
     \<lparr>srcs = tracks, autoplay = auto, currentAudio = None, currentAudioIndex = None,
      lastAudioVolume = None, heap = [],
      audioPlaybackProgressControl =
        on ''input'' ProgressInput
          (new_Element ''input''
            [(''class'', Text ''audio-playback-progress-control''), (''type'', Text ''range''),
             (''min'', Text ''0''), (''value'', Text ''0'')]),
      console = []\<rparr>"

text \<open>
  \<open>_setAudioVolume(volume)\<close>: the argument is a number or \<open>null\<close>. Reading a property of
  \<open>null\<close> throws TypeError; the volume setter of the audio element throws IndexSizeError
  outside of 0..1 and leaves the volume as it was.
\<close>

definition setAudioVolume :: "rat option \<Rightarrow> player \<Rightarrow> outcome" where
  "setAudioVolume vol s =
     (case currentAudio s of
        None \<Rightarrow> Raised TypeError s
      | Some a \<Rightarrow>
          let x = fl (toNumber vol / 100) in
          if 0 \<le> x \<and> x \<le> 1 then
            let s' = update_audio a (\<lambda>h. h\<lparr>volume := x\<rparr>) s in
            (case vol of
               None \<Rightarrow> Raised TypeError s'
             | Some v \<Rightarrow> Done (console_log (AudioVolumeChangedTo v) s'))
          else Raised IndexSizeError s)"

definition setAudioCurrentTime :: "rat \<Rightarrow> player \<Rightarrow> outcome" where
  "setAudioCurrentTime second s =
     (case currentAudio s of
        None \<Rightarrow> Raised TypeError s
      | Some a \<Rightarrow>
          Done (console_log (AudioPlaybackProgressChangedToSecond second)
                 (update_audio a (\<lambda>h. h\<lparr>currentTime := second\<rparr>) s)))"

definition mute :: "player \<Rightarrow> outcome" where
  "mute s =
     (case currentAudio s of
        None \<Rightarrow> Raised TypeError s
      | Some a \<Rightarrow>
          setAudioVolume (Some 0) (s\<lparr>lastAudioVolume := Some (fl (volume (heap s ! a) * 100))\<rparr>))"

definition unmute :: "player \<Rightarrow> outcome" where
  "unmute s = setAudioVolume (lastAudioVolume s) s"

definition toggleAudioVolume :: "player \<Rightarrow> outcome" where
  "toggleAudioVolume s =
     (case currentAudio s of
        None \<Rightarrow> Raised TypeError s
      | Some a \<Rightarrow> if 0 < volume (heap s ! a) then mute s else unmute s)"

definition playAudio :: "player \<Rightarrow> outcome" where
  "playAudio s =
     (case currentAudio s of
        None \<Rightarrow> Raised TypeError s
      | Some a \<Rightarrow> Done (console_log AudioIsNowPlaying (update_audio a (\<lambda>h. h\<lparr>paused := False\<rparr>) s)))"

definition pauseAudio :: "player \<Rightarrow> outcome" where
  "pauseAudio s =
     (case currentAudio s of
        None \<Rightarrow> Raised TypeError s
      | Some a \<Rightarrow> Done (console_log AudioIsNowPaused (update_audio a (\<lambda>h. h\<lparr>paused := True\<rparr>) s)))"

text \<open>
  \<open>setCurrentAudio(index)\<close>: pause the current audio if there is one, resolve the source
  (reading \<open>.audio\<close> of \<open>undefined\<close> throws TypeError), create the audio object, record the
  index, add the three listeners, set the volume to 75 and write the index to the console.
\<close>

definition setCurrentAudio :: "int \<Rightarrow> player \<Rightarrow> outcome" where
  "setCurrentAudio index s =
     (let audioSrcFromSrcs = srcs_at (srcs s) index in
      andThen (if currentAudio s \<noteq> None then pauseAudio s else Done s) (\<lambda>s.
        case audioSrcFromSrcs of
          None \<Rightarrow> Raised TypeError s
        | Some t \<Rightarrow>
            let audioSrc = (case t of Bare url \<Rightarrow> url | Structure url cover \<Rightarrow> url);
                a = length (heap s);
                s = s\<lparr>heap := heap s @ [new_Audio audioSrc], currentAudio := Some a,
                      currentAudioIndex := Some index\<rparr>;
                s = update_audio a (addEventListener ''timeupdate'' TimeupdateListener) s;
                s = update_audio a (addEventListener ''loadeddata'' LoadeddataListener) s;
                s = update_audio a (addEventListener ''loadedmetadata'' LoadedmetadataListener) s
            in andThen (setAudioVolume (Some 75) s) (\<lambda>s.
                 Done (console_log (CurrentPlayingAudioOfIndex (currentAudioIndex s)) s))))"

definition skipPrevious :: "player \<Rightarrow> outcome" where
  "skipPrevious s =
     (let previousAudioIndex = toInteger (currentAudioIndex s) - 1 in
      if truthy (srcs_at (srcs s) previousAudioIndex) then setCurrentAudio previousAudioIndex s
      else Done s)"

definition skipNext :: "player \<Rightarrow> outcome" where
  "skipNext s =
     (let nextAudioIndex = toInteger (currentAudioIndex s) + 1 in
      andThen
        (if truthy (srcs_at (srcs s) nextAudioIndex) then setCurrentAudio nextAudioIndex s
         else Done s)
        (\<lambda>s. Done (console_log SkipNextLine s)))"

definition toggleAudioPlayback :: "player \<Rightarrow> outcome" where
  "toggleAudioPlayback s =
     (case currentAudio s of
        None \<Rightarrow> Raised TypeError s
      | Some a \<Rightarrow> if paused (heap s ! a) then playAudio s else pauseAudio s)"

text \<open>
  The bodies of the three listeners of an audio object; \<open>target\<close> is the audio object the
  event fired on, which need not be the current one.
\<close>

fun run_listener :: "audio_callback \<Rightarrow> nat \<Rightarrow> player \<Rightarrow> outcome" where
  "run_listener TimeupdateListener target s =
     Done (s\<lparr>audioPlaybackProgressControl :=
       setAttribute ''value'' (NumberText (Some (currentTime (heap s ! target))))
         (audioPlaybackProgressControl s)\<rparr>)"
| "run_listener LoadeddataListener target s =
     (if autoplay s = Some True then playAudio s else Done s)"
| "run_listener LoadedmetadataListener target s =
     (let s = s\<lparr>audioPlaybackProgressControl :=
                setAttribute ''value'' (Text ''0'') (audioPlaybackProgressControl s)\<rparr>
      in case currentAudio s of
           None \<Rightarrow> Raised TypeError s
         | Some a \<Rightarrow>
             Done (s\<lparr>audioPlaybackProgressControl :=
               setAttribute ''max'' (NumberText (duration (heap s ! a)))
                 (audioPlaybackProgressControl s)\<rparr>))"

text \<open>
  An event of type \<open>ev\<close> fires on the audio object \<open>target\<close>: its listeners of that type
  run in order. An exception thrown by a listener is reported by the browser and does
  not stop the dispatch.
\<close>

definition dispatchEvent :: "nat \<Rightarrow> string \<Rightarrow> player \<Rightarrow> player" where
  "dispatchEvent target ev s =
     foldl (\<lambda>s cb. state_of (run_listener cb target s)) s (invoked (heap s ! target) ev)"

text \<open>
  The operations on a player: the methods, and an event firing on an audio object.
  \<open>perform\<close> gives the state an operation leaves, whether it returns or throws.
\<close>

datatype operation =
    SetCurrentAudio int
  | SetAudioVolume "rat option"
  | SetAudioCurrentTime rat
  | Mute
  | Unmute
  | ToggleAudioVolume
  | PlayAudio
  | PauseAudio
  | SkipPrevious
  | SkipNext
  | ToggleAudioPlayback
  | Event nat string

fun perform :: "operation \<Rightarrow> player \<Rightarrow> player" where
  "perform (SetCurrentAudio index) s = state_of (setCurrentAudio index s)"
| "perform (SetAudioVolume vol) s = state_of (setAudioVolume vol s)"
| "perform (SetAudioCurrentTime second) s = state_of (setAudioCurrentTime second s)"
| "perform Mute s = state_of (mute s)"
| "perform Unmute s = state_of (unmute s)"
| "perform ToggleAudioVolume s = state_of (toggleAudioVolume s)"
| "perform PlayAudio s = state_of (playAudio s)"
| "perform PauseAudio s = state_of (pauseAudio s)"
| "perform SkipPrevious s = state_of (skipPrevious s)"
| "perform SkipNext s = state_of (skipNext s)"
| "perform ToggleAudioPlayback s = state_of (toggleAudioPlayback s)"
| "perform (Event target ev) s = dispatchEvent target ev s"

text \<open>
  Whenever there is a current audio object, the current index is a position of \<open>srcs\<close>.
\<close>

definition index_valid :: "player \<Rightarrow> bool" where
  "index_valid s =
     (case currentAudio s of
        None \<Rightarrow> True
      | Some a \<Rightarrow>
          (case currentAudioIndex s of
             None \<Rightarrow> False
           | Some i \<Rightarrow> 0 \<le> i \<and> i < int (length (srcs s))))"

text \<open>The fields that say which track is selected.\<close>

definition selection :: "player \<Rightarrow> track list \<times> nat option \<times> int option" where
  "selection s = (srcs s, currentAudio s, currentAudioIndex s)"

text \<open>
  The audio object that \<open>setCurrentAudio\<close> leaves as the current one: new, with the three
  listeners and the volume 0.75.
\<close>

definition installed_audio :: "string \<Rightarrow> audio" where
  "installed_audio url =
     (new_Audio url)
       \<lparr>listenerList :=
          [(''timeupdate'', TimeupdateListener), (''loadeddata'', LoadeddataListener),
           (''loadedmetadata'', LoadedmetadataListener)],
        volume := 3 / 4\<rparr>"

text \<open>
  Every listener of the element was added through \<open>on\<close>, and none is there twice.
\<close>

definition listeners_tracked :: "'cb element \<Rightarrow> bool" where
  "listeners_tracked this =
     (distinct (listenerList (htmlElement this)) \<and>
      set (listenerList (htmlElement this)) \<subseteq> set (eventListeners this))"

text \<open>
  The test of \<open>_toggleAudioVolume\<close>: the current audio object has a volume above zero.
\<close>

definition audible :: "player \<Rightarrow> bool" where
  "audible s = (case currentAudio s of None \<Rightarrow> False | Some a \<Rightarrow> 0 < volume (heap s ! a))"

text \<open>Players used as concrete inputs.\<close>

definition example_tracks :: "track list" where
  "example_tracks = [Bare ''a.mp3'', Structure ''b.mp3'' (Some ''b.png''), Bare ''c.mp3'']"

definition example_player :: player where
  "example_player = state_of (setCurrentAudio 1 (new_Player example_tracks (Some True)))"

definition quiet_player :: player where
  "quiet_player =
     state_of (setAudioVolume (Some 40)
       (state_of (setCurrentAudio 0 (new_Player example_tracks None))))"

definition gap_tracks :: "track list" where
  "gap_tracks = [Bare [], Bare ''b.mp3'', Bare []]"

definition gap_player :: player where
  "gap_player = state_of (setCurrentAudio 1 (new_Player gap_tracks None))"

definition blank_tracks :: "track list" where
  "blank_tracks = [Bare ''a.mp3'', Bare []]"

definition blank_player :: player where
  "blank_player = state_of (setCurrentAudio 0 (new_Player blank_tracks None))"

definition muted_player :: player where
  "muted_player = state_of (mute example_player)"

definition last_player :: player where
  "last_player = state_of (setCurrentAudio 2 (new_Player example_tracks None))"

section \<open>Binary64 rounding\<close>

lemma pow2_pos: "0 < (2::rat) powi e"
  by (simp add: zero_less_power_int)

lemma pow2_not_less_zero [simp]: "\<not> (2::rat) powi e < 0"
  using pow2_pos [of e] by (simp only: not_less less_imp_le)

lemma pow2_not_le_zero [simp]: "\<not> (2::rat) powi e \<le> 0"
  using pow2_pos [of e] by (simp only: not_le)

lemma pow2_nonneg [simp]: "0 \<le> (2::rat) powi e"
  using pow2_pos [of e] by (rule less_imp_le)

lemma pow2_mono: "e \<le> e' \<Longrightarrow> (2::rat) powi e \<le> 2 powi e'"
  by (rule power_int_increasing) simp_all

lemma pow2_strict_mono: "e < e' \<Longrightarrow> (2::rat) powi e < 2 powi e'"
  by (rule power_int_strict_increasing) simp_all

lemma pow2_add: "(2::rat) powi (a + b) = 2 powi a * 2 powi b"
  by (simp add: power_int_add)

lemma pow2_diff: "(2::rat) powi (a - b) = 2 powi a / 2 powi b"
  by (simp add: power_int_diff)

lemma pow2_nat: "0 \<le> e \<Longrightarrow> (2::rat) powi e = of_int (2 ^ nat e)"
  by (simp add: power_int_nonneg_exp)

lemma bexp_large:
  assumes "1 \<le> x"
  shows "0 \<le> bexp x \<and> 2 powi bexp x \<le> x \<and> x < 2 powi (bexp x + 1)"
proof -
  let ?a = "\<lfloor>x\<rfloor>"
  from assms have a: "1 \<le> ?a" by simp
  then have apos: "0 < ?a" by simp
  from assms have e: "bexp x = bitlen ?a - 1"
    by (simp add: bexp_def Let_def)
  from bitlen_bounds [OF apos] have lo: "2 ^ nat (bitlen ?a - 1) \<le> ?a" and hi: "?a < 2 ^ nat (bitlen ?a)"
    by simp_all
  from apos have bl: "1 \<le> bitlen ?a"
    using bitlen_eq_zero_iff [of ?a] bitlen_nonneg [of ?a] by linarith
  have "(2::rat) powi bexp x = of_int (2 ^ nat (bitlen ?a - 1))"
    using bl by (simp add: e pow2_nat)
  also have "\<dots> \<le> of_int ?a"
    using lo by (simp only: of_int_le_iff)
  also have "\<dots> \<le> x" by simp
  finally have 1: "2 powi bexp x \<le> x" .
  have "x < of_int (?a + 1)" by linarith
  also have "\<dots> \<le> of_int (2 ^ nat (bitlen ?a))"
    using hi by (simp only: of_int_le_iff)
  also have "\<dots> = (2::rat) powi (bexp x + 1)"
    using bl by (simp add: e pow2_nat)
  finally have 2: "x < 2 powi (bexp x + 1)" .
  from bl e 1 2 show ?thesis by simp
qed

lemma bexp_small:
  assumes "0 < x" and "x < 1"
  shows "bexp x = max (- 1022) (- bitlen (\<lceil>1 / x\<rceil> - 1))"
    and "2 powi (- bitlen (\<lceil>1 / x\<rceil> - 1)) \<le> x"
    and "x < 2 powi (- bitlen (\<lceil>1 / x\<rceil> - 1) + 1)"
proof -
  let ?c = "\<lceil>1 / x\<rceil>"
  let ?k = "bitlen (?c - 1)"
  from assms have "\<lfloor>x\<rfloor> = 0" by (simp add: floor_eq_iff)
  with assms show "bexp x = max (- 1022) (- ?k)"
    by (simp add: bexp_def Let_def)
  from assms have inv: "1 < 1 / x" by simp
  then have c2: "2 \<le> ?c" by (simp add: le_ceiling_iff)
  then have cpos: "0 < ?c - 1" by simp
  from bitlen_bounds [OF cpos] have lo: "2 ^ nat (?k - 1) \<le> ?c - 1" and hi: "?c - 1 < 2 ^ nat ?k"
    by simp_all
  from cpos have k1: "1 \<le> ?k"
    using bitlen_eq_zero_iff [of "?c - 1"] bitlen_nonneg [of "?c - 1"] by linarith
  have "1 / x \<le> of_int ?c" by simp
  also have "\<dots> \<le> of_int (2 ^ nat ?k)"
    using hi by (simp only: of_int_le_iff)
  also have "\<dots> = (2::rat) powi ?k"
    using k1 by (simp add: pow2_nat)
  finally have "1 / x \<le> 2 powi ?k" .
  then have "1 \<le> 2 powi ?k * x"
    using assms by (simp add: field_simps)
  then show "2 powi (- ?k) \<le> x"
    using pow2_pos [of ?k] by (simp add: power_int_minus field_simps)
  have "(2::rat) powi (?k - 1) = of_int (2 ^ nat (?k - 1))"
    using k1 by (simp add: pow2_nat)
  also have "\<dots> \<le> of_int (?c - 1)"
    using lo by (simp only: of_int_le_iff)
  also have "\<dots> < 1 / x"
    by linarith
  finally have "2 powi (?k - 1) * x < 1"
    using assms by (simp add: field_simps)
  then have "x < 1 / 2 powi (?k - 1)"
    using pow2_pos [of "?k - 1"] by (simp add: pos_less_divide_eq mult.commute)
  also have "\<dots> = 2 powi (- (?k - 1))"
    by (simp only: power_int_minus_divide)
  also have "- (?k - 1) = - ?k + 1" by simp
  finally show "x < 2 powi (- ?k + 1)" .
qed


lemma bexp_ge: "- 1022 \<le> bexp x"
proof (cases "1 \<le> \<bar>x\<bar>")
  case True
  then show ?thesis using bexp_large [of "\<bar>x\<bar>"] by (simp add: bexp_def Let_def)
next
  case False
  then have "\<not> 1 \<le> \<lfloor>\<bar>x\<bar>\<rfloor>" by (simp add: le_floor_iff)
  then show ?thesis by (simp add: bexp_def Let_def)
qed

lemma bexp_upper:
  assumes "0 < x"
  shows "x < 2 powi (bexp x + 1)"
proof (cases "1 \<le> x")
  case True
  then show ?thesis using bexp_large by simp
next
  case False
  with assms have small: "0 < x" "x < 1" by simp_all
  let ?k = "bitlen (\<lceil>1 / x\<rceil> - 1)"
  have "x < 2 powi (- ?k + 1)"
    using bexp_small(3) [OF small] .
  also have "\<dots> \<le> 2 powi (bexp x + 1)"
    by (rule pow2_mono) (simp add: bexp_small(1) [OF small])
  finally show ?thesis .
qed

lemma bexp_lower:
  assumes "0 < x" and "bexp x \<noteq> - 1022"
  shows "2 powi bexp x \<le> x"
proof (cases "1 \<le> x")
  case True
  then show ?thesis using bexp_large by simp
next
  case False
  with assms have small: "0 < x" "x < 1" by simp_all
  from assms(2) have "bexp x = - bitlen (\<lceil>1 / x\<rceil> - 1)"
    using bexp_small(1) [OF small] by (simp add: max_def split: if_splits)
  then show ?thesis
    using bexp_small(2) [OF small] by simp
qed

lemma bexp_unique:
  assumes "- 1022 \<le> e" and "2 powi e \<le> x" and "x < 2 powi (e + 1)"
  shows "bexp x = e"
proof -
  from assms(2) have pos: "0 < x"
    by (rule less_le_trans [OF pow2_pos])
  have "\<not> bexp x < e"
  proof
    assume "bexp x < e"
    then have "2 powi (bexp x + 1) \<le> (2::rat) powi e"
      by (intro pow2_mono) simp
    with bexp_upper [OF pos] assms(2) show False by simp
  qed
  moreover have "\<not> e < bexp x"
  proof
    assume less: "e < bexp x"
    with assms(1) have "bexp x \<noteq> - 1022" by simp
    then have "2 powi bexp x \<le> x" using bexp_lower [OF pos] by simp
    moreover from less have "2 powi (e + 1) \<le> (2::rat) powi bexp x"
      by (intro pow2_mono) simp
    ultimately show False using assms(3) by simp
  qed
  ultimately show ?thesis by simp
qed

lemma bexp_subnormal:
  assumes "0 < x" and "x < 2 powi (- 1022)"
  shows "bexp x = - 1022"
proof (rule ccontr)
  assume "bexp x \<noteq> - 1022"
  then have "2 powi bexp x \<le> x" and "- 1022 \<le> bexp x"
    using bexp_lower [OF assms(1)] bexp_ge [of x] by simp_all
  then have "(2::rat) powi (- 1022) \<le> x"
    using pow2_mono [of "- 1022" "bexp x"] by simp
  with assms(2) show False by simp
qed

lemma bexp_mono:
  assumes "0 < x" and "x \<le> y"
  shows "bexp x \<le> bexp y"
proof (rule ccontr)
  assume "\<not> bexp x \<le> bexp y"
  then have less: "bexp y < bexp x" by simp
  then have "bexp x \<noteq> - 1022" using bexp_ge [of y] by simp
  then have "2 powi bexp x \<le> x" using bexp_lower [OF assms(1)] by simp
  moreover from assms have "y < 2 powi (bexp y + 1)"
    by (intro bexp_upper) simp
  moreover from less have "2 powi (bexp y + 1) \<le> (2::rat) powi bexp x"
    by (intro pow2_mono) simp
  ultimately show False using assms(2) by simp
qed

lemma quantum_pos: "0 < quantum x"
  by (simp add: quantum_def pow2_pos)

lemma quantum_ge: "2 powi (- 1074) \<le> quantum x"
  unfolding quantum_def using bexp_ge [of x] by (intro pow2_mono) simp

lemma rne_of_int: "rne (of_int n) = n"
  by (simp add: rne_def)

lemma rne_mono: "r \<le> s \<Longrightarrow> rne r \<le> rne s"
proof -
  assume le: "r \<le> s"
  then have fl: "\<lfloor>r\<rfloor> \<le> \<lfloor>s\<rfloor>" by (rule floor_mono)
  show ?thesis
  proof (cases "\<lfloor>r\<rfloor> = \<lfloor>s\<rfloor>")
    case True
    with le show ?thesis
      by (auto simp: rne_def Let_def)
  next
    case False
    with fl have "\<lfloor>r\<rfloor> + 1 \<le> \<lfloor>s\<rfloor>" by simp
    moreover have "rne r \<le> \<lfloor>r\<rfloor> + 1" by (simp add: rne_def Let_def)
    moreover have "\<lfloor>s\<rfloor> \<le> rne s" by (simp add: rne_def Let_def)
    ultimately show ?thesis by simp
  qed
qed

lemma rne_near:
  assumes "\<bar>r - of_int m\<bar> < 1 / 2 \<or> (\<bar>r - of_int m\<bar> = 1 / 2 \<and> even m)"
  shows "rne r = m"
proof -
  consider (below) "of_int m \<le> r" | (above) "r < of_int m" by linarith
  then show ?thesis
  proof cases
    case below
    with assms have "r < of_int m + 1" by auto
    with below have "\<lfloor>r\<rfloor> = m" by (simp add: floor_eq_iff)
    with assms below show ?thesis
      by (auto simp: rne_def Let_def)
  next
    case above
    with assms have "of_int m - 1 \<le> r" by auto
    with above have f: "\<lfloor>r\<rfloor> = m - 1" by (simp add: floor_eq_iff)
    with assms above show ?thesis
      by (auto simp: rne_def Let_def)
  qed
qed

lemma rne_bounds:
  "\<bar>r - of_int (rne r)\<bar> \<le> 1 / 2 \<and> (\<bar>r - of_int (rne r)\<bar> = 1 / 2 \<longrightarrow> even (rne r))"
proof -
  define n where "n = \<lfloor>r\<rfloor>"
  define f where "f = r - of_int n"
  have "0 \<le> f" and "f < 1"
    unfolding f_def n_def by linarith+
  have r: "r = of_int n + f"
    by (simp add: f_def)
  have rne: "rne r = (if f < 1 / 2 then n else if 1 / 2 < f then n + 1
      else if even n then n else n + 1)"
    by (simp add: rne_def Let_def n_def f_def)
  have d: "r - of_int n = f" "r - of_int (n + 1) = f - 1"
    by (simp_all add: f_def)
  consider "f < 1 / 2" | "1 / 2 < f" | "f = 1 / 2" by linarith
  then show ?thesis
  proof cases
    case 1
    then have "rne r = n" by (simp add: rne)
    with 1 \<open>0 \<le> f\<close> d(1) show ?thesis by simp
  next
    case 2
    then have "rne r = n + 1" by (simp add: rne)
    with 2 \<open>f < 1\<close> d(2) show ?thesis by (simp only: abs_if) simp
  next
    case 3
    show ?thesis
    proof (cases "even n")
      case True
      with 3 have "rne r = n" by (simp add: rne)
      with 3 True d(1) show ?thesis by simp
    next
      case False
      with 3 have "rne r = n + 1" by (simp add: rne)
      with 3 False d(2) show ?thesis by (simp only: abs_if) simp
    qed
  qed
qed

lemma rne_nearest: "\<bar>r - of_int (rne r)\<bar> \<le> \<bar>r - of_int k\<bar>"
proof (cases "k = rne r")
  case True
  then show ?thesis by simp
next
  case False
  then have "1 \<le> \<bar>rne r - k\<bar>" by simp
  then have "1 \<le> \<bar>(of_int (rne r) :: rat) - of_int k\<bar>"
    by (simp only: flip: of_int_diff of_int_abs)
  moreover have "\<bar>r - of_int (rne r)\<bar> \<le> 1 / 2"
    using rne_bounds [of r] by simp
  ultimately show ?thesis by linarith
qed

lemma rne_nonneg: "0 \<le> r \<Longrightarrow> 0 \<le> rne r"
  using rne_mono [of 0 r] rne_of_int [of 0] by simp

lemma fl_zero: "fl 0 = 0"
  by (simp add: fl_def rne_def)

lemma fl_nonneg: "0 \<le> x \<Longrightarrow> 0 \<le> fl x"
  using quantum_pos [of x] by (simp add: fl_def rne_nonneg)

lemma quantum_eq: "quantum x = 2 powi (bexp x - 52)"
  by (simp add: quantum_def)

lemma pow2_53: "(2::rat) powi (e + 1) = of_int (2 ^ 53) * 2 powi (e - 52)"
proof -
  have "(2::rat) powi (e + 1) = 2 powi (53 + (e - 52))"
    by (rule arg_cong [where f = "\<lambda>k. 2 powi k"]) simp
  also have "\<dots> = 2 powi 53 * 2 powi (e - 52)" by (rule pow2_add)
  finally show ?thesis by simp
qed

lemma pow2_52: "(2::rat) powi e = of_int (2 ^ 52) * 2 powi (e - 52)"
proof -
  have "(2::rat) powi e = 2 powi (52 + (e - 52))"
    by (rule arg_cong [where f = "\<lambda>k. 2 powi k"]) simp
  also have "\<dots> = 2 powi 52 * 2 powi (e - 52)" by (rule pow2_add)
  finally show ?thesis by simp
qed

lemma fl_binade_le:
  assumes "0 < x"
  shows "fl x \<le> 2 powi (bexp x + 1)"
proof -
  let ?q = "(2::rat) powi (bexp x - 52)"
  have q: "0 < ?q" by (rule pow2_pos)
  from bexp_upper [OF assms] have "x < of_int (2 ^ 53) * ?q"
    by (simp only: pow2_53)
  then have "x / ?q \<le> of_int (2 ^ 53)"
    using q by (simp add: pos_divide_le_eq)
  then have "rne (x / ?q) \<le> 2 ^ 53"
    using rne_mono [of "x / ?q" "of_int (2 ^ 53)"] by (simp only: rne_of_int)
  then have "(of_int (rne (x / ?q)) :: rat) \<le> of_int (2 ^ 53)"
    by (simp only: of_int_le_iff)
  then have "of_int (rne (x / ?q)) * ?q \<le> of_int (2 ^ 53) * ?q"
    using q by (intro mult_right_mono) simp_all
  then show ?thesis
    by (simp only: fl_def quantum_eq pow2_53)
qed

lemma fl_binade_ge:
  assumes "0 < x" and "bexp x \<noteq> - 1022"
  shows "2 powi bexp x \<le> fl x"
proof -
  let ?q = "(2::rat) powi (bexp x - 52)"
  have q: "0 < ?q" by (rule pow2_pos)
  from bexp_lower [OF assms] have "of_int (2 ^ 52) * ?q \<le> x"
    by (simp only: flip: pow2_52)
  then have "of_int (2 ^ 52) \<le> x / ?q"
    using q by (simp add: pos_le_divide_eq)
  then have "2 ^ 52 \<le> rne (x / ?q)"
    using rne_mono [of "of_int (2 ^ 52)" "x / ?q"] by (simp only: rne_of_int)
  then have "(of_int (2 ^ 52) :: rat) \<le> of_int (rne (x / ?q))"
    by (simp only: of_int_le_iff)
  then have "of_int (2 ^ 52) * ?q \<le> of_int (rne (x / ?q)) * ?q"
    using q by (intro mult_right_mono) simp_all
  then show ?thesis
    by (simp only: fl_def quantum_eq flip: pow2_52)
qed

lemma fl_mono:
  assumes "0 \<le> x" and "x \<le> y"
  shows "fl x \<le> fl y"
proof (cases "x = 0")
  case True
  with assms show ?thesis by (simp add: fl_zero fl_nonneg)
next
  case False
  with assms have x: "0 < x" and y: "0 < y" by simp_all
  have le: "bexp x \<le> bexp y"
    using x assms(2) by (rule bexp_mono)
  show ?thesis
  proof (cases "bexp x = bexp y")
    case True
    let ?q = "(2::rat) powi (bexp y - 52)"
    have q: "0 < ?q" by (rule pow2_pos)
    from assms(2) q have "x / ?q \<le> y / ?q"
      by (simp add: divide_right_mono)
    then have "rne (x / ?q) \<le> rne (y / ?q)" by (rule rne_mono)
    then have "(of_int (rne (x / ?q)) :: rat) \<le> of_int (rne (y / ?q))"
      by (simp only: of_int_le_iff)
    then have "of_int (rne (x / ?q)) * ?q \<le> of_int (rne (y / ?q)) * ?q"
      using q by (intro mult_right_mono) simp_all
    then show ?thesis
      by (simp only: fl_def quantum_eq True)
  next
    case False
    with le have less: "bexp x < bexp y" by simp
    then have "bexp y \<noteq> - 1022" using bexp_ge [of x] by simp
    have "fl x \<le> 2 powi (bexp x + 1)" using x by (rule fl_binade_le)
    also have "\<dots> \<le> 2 powi bexp y"
      using less by (intro pow2_mono) simp
    also have "\<dots> \<le> fl y"
      using y \<open>bexp y \<noteq> - 1022\<close> by (rule fl_binade_ge)
    finally show ?thesis .
  qed
qed

lemma fl_representable:
  assumes "0 \<le> m" and "m < 2 ^ 53" and "- 1074 \<le> j"
  shows "fl (of_int m * 2 powi j) = of_int m * 2 powi j"
proof (cases "m = 0")
  case True
  then show ?thesis by (simp add: fl_zero)
next
  case False
  with assms have m: "0 < m" by simp
  let ?x = "of_int m * (2::rat) powi j"
  let ?e = "bexp ?x"
  have x: "0 < ?x" using m pow2_pos [of j] by simp
  have "?e - 52 \<le> j"
  proof (rule ccontr)
    assume "\<not> ?e - 52 \<le> j"
    then have gt: "j + 53 \<le> ?e" by simp
    with assms(3) have "?e \<noteq> - 1022" by simp
    then have "2 powi ?e \<le> ?x" using bexp_lower [OF x] by simp
    moreover have "?x < of_int (2 ^ 53) * 2 powi j"
      using assms(2) pow2_pos [of j] by (intro mult_strict_right_mono) simp_all
    moreover have "of_int (2 ^ 53) * 2 powi j = (2::rat) powi (j + 53)"
      using pow2_add [of 53 j] by (simp add: add.commute)
    moreover have "(2::rat) powi (j + 53) \<le> 2 powi ?e"
      using gt by (rule pow2_mono)
    ultimately show False by simp
  qed
  then obtain k where k: "j = (?e - 52) + int k"
    using zle_iff_zadd by blast
  define q where "q = (2::rat) powi (?e - 52)"
  have q: "0 < q" unfolding q_def by (rule pow2_pos)
  have "(2::rat) powi j = 2 powi ((?e - 52) + int k)"
    by (rule arg_cong [where f = "\<lambda>k. 2 powi k"]) (rule k)
  also have "\<dots> = q * of_int (2 ^ k)"
    unfolding q_def by (subst pow2_add) simp
  finally have pj: "(2::rat) powi j = q * of_int (2 ^ k)" .
  have "?x / q = (of_int m * (q * of_int (2 ^ k))) / q"
    by (simp only: pj)
  also have "\<dots> = of_int (m * 2 ^ k)"
    using q by simp
  finally have "rne (?x / q) = m * 2 ^ k"
    by (simp only: rne_of_int)
  then have "fl ?x = of_int (m * 2 ^ k) * q"
    by (simp only: fl_def quantum_eq q_def)
  also have "\<dots> = of_int m * (q * of_int (2 ^ k))"
    by simp
  also have "\<dots> = ?x"
    by (simp only: pj)
  finally show ?thesis .
qed

lemma rne_quotient_le:
  assumes "0 < x"
  shows "rne (x / 2 powi (bexp x - 52)) \<le> 2 ^ 53"
proof -
  let ?q = "(2::rat) powi (bexp x - 52)"
  have q: "0 < ?q" by (rule pow2_pos)
  from bexp_upper [OF assms] have "x < of_int (2 ^ 53) * ?q"
    by (simp only: pow2_53)
  then have "x / ?q \<le> of_int (2 ^ 53)"
    using q by (simp add: pos_divide_le_eq)
  then show ?thesis
    using rne_mono [of "x / ?q" "of_int (2 ^ 53)"] by (simp only: rne_of_int)
qed

lemma fl_idem:
  assumes "0 \<le> x"
  shows "fl (fl x) = fl x"
proof (cases "x = 0")
  case True
  then show ?thesis by (simp add: fl_zero)
next
  case False
  with assms have x: "0 < x" by simp
  define n where "n = rne (x / 2 powi (bexp x - 52))"
  have flx: "fl x = of_int n * 2 powi (bexp x - 52)"
    by (simp only: fl_def quantum_eq n_def)
  have n0: "0 \<le> n"
    unfolding n_def using x pow2_pos [of "bexp x - 52"] by (intro rne_nonneg) simp
  have n53: "n \<le> 2 ^ 53"
    unfolding n_def using x by (rule rne_quotient_le)
  have j: "- 1074 \<le> bexp x - 52"
    using bexp_ge [of x] by simp
  show ?thesis
  proof (cases "n = 2 ^ 53")
    case True
    then have "fl x = of_int 1 * 2 powi (bexp x + 1)"
      by (simp only: flx pow2_53)
    moreover have "fl (of_int 1 * 2 powi (bexp x + 1)) = of_int 1 * 2 powi (bexp x + 1)"
      using j by (intro fl_representable) simp_all
    ultimately show ?thesis by simp
  next
    case False
    with n53 have "n < 2 ^ 53" by simp
    with n0 j have "fl (of_int n * 2 powi (bexp x - 52)) = of_int n * 2 powi (bexp x - 52)"
      by (intro fl_representable)
    then show ?thesis by (simp only: flx)
  qed
qed

lemma double_mantissa:
  assumes "fl h = h" and "0 < h"
  obtains m where "h = of_int m * 2 powi (bexp h - 52)" and "0 < m" and "m < 2 ^ 53"
    and "bexp h \<noteq> - 1022 \<longrightarrow> 2 ^ 52 \<le> m"
proof -
  let ?q = "(2::rat) powi (bexp h - 52)"
  define m where "m = rne (h / ?q)"
  have q: "0 < ?q" by (rule pow2_pos)
  have h: "h = of_int m * ?q"
    using assms(1) by (simp only: fl_def quantum_eq m_def)
  have "0 < of_int m * ?q" using assms(2) h by simp
  with q have "0 < (of_int m :: rat)"
    by (simp add: zero_less_mult_iff)
  then have m0: "0 < m" by simp
  have "of_int m * ?q < of_int (2 ^ 53) * ?q"
    using bexp_upper [OF assms(2)] h by (simp only: pow2_53)
  with q have "(of_int m :: rat) < of_int (2 ^ 53)"
    by (simp only: mult_less_cancel_right_pos)
  then have m53: "m < 2 ^ 53" by (simp only: of_int_less_iff)
  have "bexp h \<noteq> - 1022 \<longrightarrow> 2 ^ 52 \<le> m"
  proof
    assume "bexp h \<noteq> - 1022"
    then have "of_int (2 ^ 52) * ?q \<le> of_int m * ?q"
      using bexp_lower [OF assms(2)] h pow2_52 [of "bexp h"] by simp
    with q have "(of_int (2 ^ 52) :: rat) \<le> of_int m"
      by (simp only: mult_le_cancel_right_pos)
    then show "2 ^ 52 \<le> m" by (simp only: of_int_le_iff)
  qed
  with h m0 m53 show thesis by (rule that)
qed

lemma double_min:
  assumes "fl h = h" and "0 < h"
  shows "2 powi (- 1074) \<le> h"
proof -
  from assms obtain m where h: "h = of_int m * 2 powi (bexp h - 52)" and m: "0 < m"
    by (rule double_mantissa)
  from m have "(1::rat) \<le> of_int m" by simp
  then have "1 * 2 powi (bexp h - 52) \<le> of_int m * (2::rat) powi (bexp h - 52)"
    using pow2_pos [of "bexp h - 52"] by (intro mult_right_mono) simp_all
  with h have "2 powi (bexp h - 52) \<le> h" by simp
  moreover have "(2::rat) powi (- 1074) \<le> 2 powi (bexp h - 52)"
    using bexp_ge [of h] by (intro pow2_mono) simp
  ultimately show ?thesis by simp
qed

lemma double_on_grid:
  assumes "fl v = v" and "0 < v" and "bexp v = e"
  obtains k where "v = of_int k * 2 powi (e - 52)"
proof -
  from assms(1) have "v = of_int (rne (v / 2 powi (bexp v - 52))) * 2 powi (bexp v - 52)"
    by (simp only: fl_def quantum_eq)
  with assms(3) show thesis by (intro that) simp
qed

lemma fl_nearest:
  assumes "0 \<le> z" and "0 \<le> v" and "fl v = v"
  shows "\<bar>fl z - z\<bar> \<le> \<bar>v - z\<bar>"
proof (cases "z = 0")
  case True
  then show ?thesis by (simp add: fl_zero)
next
  case False
  with assms have z: "0 < z" by simp
  define e where "e = bexp z"
  define q where "q = (2::rat) powi (e - 52)"
  define r where "r = z / q"
  have q: "0 < q" unfolding q_def by (rule pow2_pos)
  have zr: "z = r * q" using q by (simp add: r_def)
  have rq: "r * q = z" using q by (simp add: r_def)
  have r0: "0 \<le> r" using z q by (simp add: r_def)
  have flz: "fl z = of_int (rne r) * q"
    by (simp only: fl_def quantum_eq r_def q_def e_def)
  have near: "\<bar>fl z - z\<bar> \<le> \<bar>r - of_int k\<bar> * q" for k
  proof -
    have "fl z - z = of_int (rne r) * q - r * q"
      by (simp only: flz rq)
    then have "fl z - z = (of_int (rne r) - r) * q"
      by (simp only: left_diff_distrib)
    then have "\<bar>fl z - z\<bar> = \<bar>r - of_int (rne r)\<bar> * q"
      using q by (simp add: abs_mult abs_minus_commute)
    also have "\<dots> \<le> \<bar>r - of_int k\<bar> * q"
      using q rne_nearest [of r k] by (intro mult_right_mono) simp_all
    finally show ?thesis .
  qed
  show ?thesis
  proof (cases "v \<le> z")
    case True
    have "v \<le> of_int \<lfloor>r\<rfloor> * q"
    proof (cases "v = 0")
      case True
      then show ?thesis using r0 q by simp
    next
      case False
      with assms(2) have v: "0 < v" by simp
      have le: "bexp v \<le> e"
        unfolding e_def using v \<open>v \<le> z\<close> by (rule bexp_mono)
      show ?thesis
      proof (cases "bexp v = e")
        case True
        with assms(3) v obtain k where k: "v = of_int k * 2 powi (e - 52)"
          by (rule double_on_grid)
        with \<open>v \<le> z\<close> have "of_int k * q \<le> r * q"
          by (simp add: q_def zr)
        with q have "of_int k \<le> r"
          by (simp only: mult_le_cancel_right_pos)
        then have "k \<le> \<lfloor>r\<rfloor>" by (simp add: le_floor_iff)
        then have "(of_int k :: rat) \<le> of_int \<lfloor>r\<rfloor>" by (simp only: of_int_le_iff)
        then have "of_int k * q \<le> of_int \<lfloor>r\<rfloor> * q"
          using q by (intro mult_right_mono) simp_all
        with k show ?thesis by (simp add: q_def)
      next
        case False
        with le have less: "bexp v < e" by simp
        then have "e \<noteq> - 1022" using bexp_ge [of v] by simp
        then have "2 powi e \<le> z"
          using bexp_lower [OF z] by (simp add: e_def)
        then have "of_int (2 ^ 52) * q \<le> r * q"
          by (simp only: pow2_52 [of e] zr q_def)
        with q have "of_int (2 ^ 52) \<le> r"
          by (simp only: mult_le_cancel_right_pos)
        then have "2 ^ 52 \<le> \<lfloor>r\<rfloor>" by (simp only: le_floor_iff)
        then have "(of_int (2 ^ 52) :: rat) \<le> of_int \<lfloor>r\<rfloor>" by (simp only: of_int_le_iff)
        then have "of_int (2 ^ 52) * q \<le> of_int \<lfloor>r\<rfloor> * q"
          using q by (intro mult_right_mono) simp_all
        moreover have "v < 2 powi (bexp v + 1)" using v by (rule bexp_upper)
        moreover have "(2::rat) powi (bexp v + 1) \<le> 2 powi e"
          using less by (intro pow2_mono) simp
        moreover have "(2::rat) powi e = of_int (2 ^ 52) * q"
          by (simp only: pow2_52 [of e] q_def)
        ultimately show ?thesis by simp
      qed
    qed
    moreover have "\<bar>r - of_int \<lfloor>r\<rfloor>\<bar> * q = z - of_int \<lfloor>r\<rfloor> * q"
    proof -
      have "0 \<le> r - of_int \<lfloor>r\<rfloor>" by simp
      then have "\<bar>r - of_int \<lfloor>r\<rfloor>\<bar> = r - of_int \<lfloor>r\<rfloor>" by (rule abs_of_nonneg)
      then show ?thesis by (simp add: zr algebra_simps)
    qed
    ultimately have "\<bar>r - of_int \<lfloor>r\<rfloor>\<bar> * q \<le> \<bar>v - z\<bar>"
      using True by simp
    with near [of "\<lfloor>r\<rfloor>"] show ?thesis by simp
  next
    case False
    then have gt: "z < v" by simp
    with z have v: "0 < v" by simp
    have le: "e \<le> bexp v"
      unfolding e_def using z gt by (intro bexp_mono) simp_all
    have "of_int \<lceil>r\<rceil> * q \<le> v"
    proof (cases "bexp v = e")
      case True
      with assms(3) v obtain k where k: "v = of_int k * 2 powi (e - 52)"
        by (rule double_on_grid)
      with gt have "r * q \<le> of_int k * q"
        by (simp add: q_def zr)
      with q have "r \<le> of_int k"
        by (simp only: mult_le_cancel_right_pos)
      then have "\<lceil>r\<rceil> \<le> k" by (simp add: ceiling_le_iff)
      then have "(of_int \<lceil>r\<rceil> :: rat) \<le> of_int k" by (simp only: of_int_le_iff)
      then have "of_int \<lceil>r\<rceil> * q \<le> of_int k * q"
        using q by (intro mult_right_mono) simp_all
      with k show ?thesis by (simp add: q_def)
    next
      case False
      with le have less: "e < bexp v" by simp
      then have "bexp v \<noteq> - 1022" using bexp_ge [of z] by (simp add: e_def)
      then have "2 powi bexp v \<le> v" using bexp_lower [OF v] by simp
      moreover have "(2::rat) powi (e + 1) \<le> 2 powi bexp v"
        using less by (intro pow2_mono) simp
      moreover have p: "(2::rat) powi (e + 1) = of_int (2 ^ 53) * q"
        by (simp only: pow2_53 [of e] q_def)
      moreover have "of_int \<lceil>r\<rceil> * q \<le> of_int (2 ^ 53) * q"
      proof -
        have "z < 2 powi (e + 1)"
          unfolding e_def using z by (rule bexp_upper)
        then have "r * q < of_int (2 ^ 53) * q"
          by (simp only: p zr)
        with q have "r < of_int (2 ^ 53)"
          by (simp only: mult_less_cancel_right_pos)
        then have "r \<le> of_int (2 ^ 53)" by simp
        then have "\<lceil>r\<rceil> \<le> 2 ^ 53" by (simp only: ceiling_le_iff)
        then have "(of_int \<lceil>r\<rceil> :: rat) \<le> of_int (2 ^ 53)" by (simp only: of_int_le_iff)
        then show ?thesis using q by (intro mult_right_mono) simp_all
      qed
      ultimately show ?thesis by simp
    qed
    moreover have "\<bar>r - of_int \<lceil>r\<rceil>\<bar> * q = of_int \<lceil>r\<rceil> * q - z"
    proof -
      have "r - of_int \<lceil>r\<rceil> \<le> 0" by simp
      then have "\<bar>r - of_int \<lceil>r\<rceil>\<bar> = - (r - of_int \<lceil>r\<rceil>)" by (rule abs_of_nonpos)
      then show ?thesis by (simp add: zr algebra_simps)
    qed
    ultimately have "\<bar>r - of_int \<lceil>r\<rceil>\<bar> * q \<le> \<bar>v - z\<bar>"
      using gt by simp
    with near [of "\<lceil>r\<rceil>"] show ?thesis by simp
  qed
qed

text \<open>
  A double \<open>h = m * 2 powi (e - 52)\<close> that is not a power of two: either a normal number
  with \<open>2 ^ 52 < m\<close>, or a subnormal one.
\<close>

lemma near_same_binade:
  assumes "- 1022 \<le> e" and "h = of_int m * 2 powi (e - 52)"
    and "(2 ^ 52 < m \<and> m < 2 ^ 53) \<or> (e = - 1022 \<and> 0 < m \<and> m < 2 ^ 52)"
    and "\<bar>x - h\<bar> \<le> 2 powi (e - 52) / 2"
  shows "0 < x \<and> bexp x = e"
proof -
  define q where "q = (2::rat) powi (e - 52)"
  have q: "0 < q" unfolding q_def by (rule pow2_pos)
  have h: "h = of_int m * q" by (simp only: assms(2) q_def)
  from assms(4) have lo: "h - q / 2 \<le> x" and hi: "x \<le> h + q / 2"
    unfolding q_def by linarith+
  from assms(3) show ?thesis
  proof
    assume m: "2 ^ 52 < m \<and> m < 2 ^ 53"
    then have "(of_int (2 ^ 52 + 1) :: rat) \<le> of_int m" and "(of_int m :: rat) \<le> of_int (2 ^ 53 - 1)"
      by (simp_all only: of_int_le_iff) simp_all
    then have "of_int (2 ^ 52 + 1) * q \<le> of_int m * q" and "of_int m * q \<le> of_int (2 ^ 53 - 1) * q"
      using q by (simp_all only: mult_le_cancel_right_pos)
    with h have "of_int (2 ^ 52) * q + q \<le> h" and "h \<le> of_int (2 ^ 53) * q - q"
      by (simp_all add: algebra_simps)
    with lo hi q have "of_int (2 ^ 52) * q \<le> x" and "x < of_int (2 ^ 53) * q"
      by simp_all
    then have "2 powi e \<le> x" and "x < 2 powi (e + 1)"
      by (simp_all only: pow2_52 [of e] pow2_53 [of e] q_def)
    with assms(1) have "bexp x = e" by (rule bexp_unique)
    moreover from \<open>2 powi e \<le> x\<close> have "0 < x" by (rule less_le_trans [OF pow2_pos])
    ultimately show ?thesis by simp
  next
    assume m: "e = - 1022 \<and> 0 < m \<and> m < 2 ^ 52"
    then have "(of_int 1 :: rat) \<le> of_int m" and "(of_int m :: rat) \<le> of_int (2 ^ 52 - 1)"
      by (simp_all only: of_int_le_iff) simp_all
    then have "of_int 1 * q \<le> of_int m * q" and "of_int m * q \<le> of_int (2 ^ 52 - 1) * q"
      using q by (simp_all only: mult_le_cancel_right_pos)
    with h have "q \<le> h" and "h \<le> of_int (2 ^ 52) * q - q"
      by (simp_all add: algebra_simps)
    with lo hi q have x: "0 < x" and "x < of_int (2 ^ 52) * q"
      by simp_all
    then have "x < 2 powi e"
      by (simp only: pow2_52 [of e] q_def)
    with m have "x < 2 powi (- 1022)" by simp
    with x have "bexp x = - 1022" by (rule bexp_subnormal)
    with x m show ?thesis by simp
  qed
qed

lemma fl_near:
  assumes "- 1022 \<le> e" and "h = of_int m * 2 powi (e - 52)"
    and "(2 ^ 52 < m \<and> m < 2 ^ 53) \<or> (e = - 1022 \<and> 0 < m \<and> m < 2 ^ 52)"
    and "\<bar>x - h\<bar> < 2 powi (e - 52) / 2 \<or> (\<bar>x - h\<bar> = 2 powi (e - 52) / 2 \<and> even m)"
  shows "fl x = h"
proof -
  define q where "q = (2::rat) powi (e - 52)"
  have q: "0 < q" unfolding q_def by (rule pow2_pos)
  have h: "h = of_int m * q" by (simp only: assms(2) q_def)
  from assms(4) have "\<bar>x - h\<bar> \<le> 2 powi (e - 52) / 2" by auto
  with assms(1-3) have "0 < x \<and> bexp x = e" by (rule near_same_binade)
  then have flx: "fl x = of_int (rne (x / q)) * q"
    by (simp add: fl_def quantum_eq q_def)
  have "x / q - of_int m = (x - h) / q"
    using q by (simp add: h diff_divide_distrib)
  then have "\<bar>x / q - of_int m\<bar> = \<bar>x - h\<bar> / q"
    using q by (simp add: abs_divide)
  with assms(4) q have "\<bar>x / q - of_int m\<bar> < 1 / 2 \<or> (\<bar>x / q - of_int m\<bar> = 1 / 2 \<and> even m)"
    by (auto simp: q_def pos_divide_less_eq)
  then have "rne (x / q) = m" by (rule rne_near)
  with flx h show ?thesis by simp
qed

lemma fl_eq_near:
  assumes "- 1022 \<le> e" and "h = of_int m * 2 powi (e - 52)"
    and "(2 ^ 52 < m \<and> m < 2 ^ 53) \<or> (e = - 1022 \<and> 0 < m \<and> m < 2 ^ 52)"
    and "0 \<le> a" and "fl a = h"
  shows "\<bar>a - h\<bar> \<le> 2 powi (e - 52) / 2 \<and> (\<bar>a - h\<bar> = 2 powi (e - 52) / 2 \<longrightarrow> even m)"
proof -
  define q where "q = (2::rat) powi (e - 52)"
  have q: "0 < q" unfolding q_def by (rule pow2_pos)
  have h: "h = of_int m * q" by (simp only: assms(2) q_def)
  have "\<bar>h - h\<bar> \<le> 2 powi (e - 52) / 2" by simp
  with assms(1-3) have "0 < h \<and> bexp h = e" by (rule near_same_binade)
  then have hpos: "0 < h" and he: "bexp h = e" by simp_all
  from assms(3) have m53: "m < 2 ^ 53" by auto
  then have "(of_int m :: rat) < of_int (2 ^ 53)" by (simp only: of_int_less_iff)
  then have "of_int m * q < of_int (2 ^ 53) * q"
    using q by (simp only: mult_less_cancel_right_pos)
  then have hlt: "h < 2 powi (e + 1)"
    by (simp only: h pow2_53 [of e] q_def)
  have a: "0 < a"
  proof (rule ccontr)
    assume "\<not> 0 < a"
    with assms(4) have "a = 0" by simp
    with assms(5) hpos show False by (simp add: fl_zero)
  qed
  have "\<not> bexp a < e"
  proof
    assume less: "bexp a < e"
    with bexp_ge [of a] have "e \<noteq> - 1022" by simp
    with assms(3) have "2 ^ 52 < m" by auto
    then have "(of_int (2 ^ 52) :: rat) < of_int m" by (simp only: of_int_less_iff)
    then have "of_int (2 ^ 52) * q < of_int m * q"
      using q by (simp only: mult_less_cancel_right_pos)
    then have "2 powi e < h"
      by (simp only: h pow2_52 [of e] q_def)
    moreover have "fl a \<le> 2 powi (bexp a + 1)" using a by (rule fl_binade_le)
    moreover have "(2::rat) powi (bexp a + 1) \<le> 2 powi e"
      using less by (intro pow2_mono) simp
    ultimately show False using assms(5) by simp
  qed
  moreover have "\<not> e < bexp a"
  proof
    assume less: "e < bexp a"
    with assms(1) have "bexp a \<noteq> - 1022" by simp
    with a have "2 powi bexp a \<le> fl a" by (rule fl_binade_ge)
    moreover have "(2::rat) powi (e + 1) \<le> 2 powi bexp a"
      using less by (intro pow2_mono) simp
    ultimately show False using hlt assms(5) by simp
  qed
  ultimately have "bexp a = e" by simp
  then have "fl a = of_int (rne (a / q)) * q"
    by (simp add: fl_def quantum_eq q_def)
  with assms(5) h have "of_int (rne (a / q)) * q = of_int m * q" by simp
  with q have "(of_int (rne (a / q)) :: rat) = of_int m"
    by (simp only: mult_cancel_right) simp
  then have m: "rne (a / q) = m" by (simp only: of_int_eq_iff)
  have "a / q - of_int m = (a - h) / q"
    using q by (simp add: h diff_divide_distrib)
  then have "\<bar>a / q - of_int m\<bar> = \<bar>a - h\<bar> / q"
    using q by (simp add: abs_divide)
  with rne_bounds [of "a / q"] m q show ?thesis
    by (auto simp: q_def pos_divide_le_eq)
qed

lemma fl_one: "fl 1 = 1"
  using fl_representable [of 1 0] by simp

lemma fl_hundred: "fl 100 = 100"
  using fl_representable [of 100 0] by simp

lemma fl_percent_round_trip:
  assumes "0 \<le> v" and "fl v = v"
  shows "fl (fl (fl (v / 100) * 100) / 100) = fl (v / 100)"
proof -
  define h where "h = fl (v / 100)"
  have h0: "0 \<le> h"
    unfolding h_def using assms(1) by (intro fl_nonneg) simp
  have hh: "fl h = h"
    unfolding h_def using assms(1) by (intro fl_idem) simp
  show ?thesis
  proof (cases "h = 0")
    case True
    then show ?thesis by (simp add: fl_zero flip: h_def)
  next
    case False
    with h0 have hpos: "0 < h" by simp
    define e where "e = bexp h"
    have e: "- 1022 \<le> e" unfolding e_def by (rule bexp_ge)
    from hh hpos obtain m where h: "h = of_int m * 2 powi (e - 52)" and m0: "0 < m"
      and m53: "m < 2 ^ 53" and normal: "e \<noteq> - 1022 \<longrightarrow> 2 ^ 52 \<le> m"
      unfolding e_def by (rule double_mantissa)
    show ?thesis
    proof (cases "m = 2 ^ 52")
      case True
      with h have "h = 2 powi e" by (simp only: pow2_52 [of e])
      then have "h * 100 = of_int 100 * 2 powi e" by simp
      moreover have "fl (of_int 100 * 2 powi e) = of_int 100 * 2 powi e"
        using e by (intro fl_representable) simp_all
      ultimately have "fl (h * 100) = h * 100" by (simp add: mult.commute)
      then show ?thesis using hh by (simp flip: h_def)
    next
      case False
      with m0 m53 normal
      have shape: "(2 ^ 52 < m \<and> m < 2 ^ 53) \<or> (e = - 1022 \<and> 0 < m \<and> m < 2 ^ 52)"
        by (cases "e = - 1022") auto
      define q where "q = (2::rat) powi (e - 52)"
      have a: "\<bar>v / 100 - h\<bar> \<le> q / 2 \<and> (\<bar>v / 100 - h\<bar> = q / 2 \<longrightarrow> even m)"
        unfolding q_def using e h shape
      proof (rule fl_eq_near)
        show "0 \<le> v / 100" using assms(1) by simp
        show "fl (v / 100) = h" by (simp only: h_def)
      qed
      have "\<bar>fl (h * 100) - h * 100\<bar> \<le> \<bar>v - h * 100\<bar>"
        using h0 assms by (intro fl_nearest) simp_all
      then have b: "\<bar>fl (h * 100) / 100 - h\<bar> \<le> \<bar>v / 100 - h\<bar>"
        by linarith
      with a have "\<bar>fl (h * 100) / 100 - h\<bar> < q / 2
          \<or> (\<bar>fl (h * 100) / 100 - h\<bar> = q / 2 \<and> even m)"
        by linarith
      with e h shape have "fl (fl (h * 100) / 100) = h"
        unfolding q_def by (rule fl_near)
      then show ?thesis by (simp only: h_def)
    qed
  qed
qed

lemma fl_percent_in_range:
  assumes "0 \<le> v" and "v \<le> 100"
  shows "0 \<le> fl (v / 100) \<and> fl (v / 100) \<le> 1"
proof -
  have "fl (v / 100) \<le> fl 1"
    using assms by (intro fl_mono) simp_all
  moreover have "0 \<le> fl (v / 100)"
    using assms(1) by (intro fl_nonneg) simp
  ultimately show ?thesis by (simp add: fl_one)
qed

lemma fl_restored_audible:
  assumes "fl h = h" and "0 < h" and "h \<le> 1"
  shows "0 < fl (fl (h * 100) / 100) \<and> fl (fl (h * 100) / 100) \<le> 1"
proof -
  let ?u = "(2::rat) powi (- 1074)"
  have u: "?u \<le> h" using assms(1,2) by (rule double_min)
  have "fl (of_int 100 * ?u) \<le> fl (h * 100)"
    using u by (intro fl_mono) simp_all
  moreover have "fl (of_int 100 * ?u) = of_int 100 * ?u"
    by (intro fl_representable) simp_all
  ultimately have "?u \<le> fl (h * 100) / 100" by simp
  then have "fl ?u \<le> fl (fl (h * 100) / 100)"
    by (intro fl_mono) simp_all
  moreover have "fl (of_int 1 * ?u) = of_int 1 * ?u"
    by (intro fl_representable) simp_all
  ultimately have "?u \<le> fl (fl (h * 100) / 100)" by simp
  then have lower: "0 < fl (fl (h * 100) / 100)"
    by (rule less_le_trans [OF pow2_pos])
  have "fl (h * 100) \<le> fl 100"
    using assms by (intro fl_mono) simp_all
  then have "fl (h * 100) / 100 \<le> 1" by (simp add: fl_hundred)
  moreover have "0 \<le> fl (h * 100)"
    using assms(2) by (intro fl_nonneg) simp
  ultimately have "fl (fl (h * 100) / 100) \<le> fl 1"
    by (intro fl_mono) simp_all
  with lower show ?thesis by (simp add: fl_one)
qed

section \<open>Listeners of an element\<close>

lemma fold_removeEventListener:
  "foldl (\<lambda>el (ev, cb). removeEventListener ev cb el) el regs =
   el\<lparr>listenerList := foldl (\<lambda>l p. remove1 p l) (listenerList el) regs\<rparr>"
  by (induction regs arbitrary: el) (auto simp: removeEventListener_def)

lemma fold_remove1_distinct:
  "distinct l \<Longrightarrow>
   distinct (foldl (\<lambda>l p. remove1 p l) l regs) \<and>
   set (foldl (\<lambda>l p. remove1 p l) l regs) = set l - set regs"
  by (induction regs arbitrary: l) auto

lemma removeEventListeners_clears:
  assumes "listeners_tracked this"
  shows "listenerList (htmlElement (removeEventListeners this)) = []"
proof -
  let ?l = "foldl (\<lambda>l p. remove1 p l) (listenerList (htmlElement this)) (eventListeners this)"
  from assms have "set ?l = {}"
    using fold_remove1_distinct [of "listenerList (htmlElement this)" "eventListeners this"]
    by (auto simp: listeners_tracked_def)
  then show ?thesis
    by (simp add: removeEventListeners_def fold_removeEventListener)
qed

lemma removeEventListeners_of_cleared:
  assumes "listenerList (htmlElement node) = []"
  shows "removeEventListeners node = node"
proof -
  have "foldl (\<lambda>l p. remove1 p l) [] regs = []" for regs :: "(string \<times> 'a) list"
    by (induction regs) auto
  with assms show ?thesis
    by (simp add: removeEventListeners_def fold_removeEventListener)
qed

lemma listeners_tracked_new: "listeners_tracked (new_Element htmlTag attrs)"
proof -
  have "listenerList (foldl (\<lambda>el (attribute, v). el\<lparr>attributes := (attributes el)(attribute \<mapsto> v)\<rparr>)
          el attrs) = listenerList el" for el :: "'a html_element"
    by (induction attrs arbitrary: el) auto
  then show ?thesis
    by (simp add: listeners_tracked_def new_Element_def createElement_def)
qed

lemma listeners_tracked_call:
  assumes "listeners_tracked this"
  shows "listeners_tracked (call_element this c)"
proof (cases c)
  case (On ev cb)
  with assms show ?thesis
    by (auto simp: listeners_tracked_def on_def addEventListener_def)
next
  case (SetText t)
  with assms show ?thesis by (simp add: listeners_tracked_def setText_def)
next
  case (SetAttribute n v)
  with assms show ?thesis by (simp add: listeners_tracked_def setAttribute_def)
next
  case RemoveEventListeners
  with assms show ?thesis
    using removeEventListeners_clears [OF assms]
    by (simp add: listeners_tracked_def)
qed

lemma listeners_tracked_calls:
  "listeners_tracked this \<Longrightarrow> listeners_tracked (foldl call_element this calls)"
  by (induction calls arbitrary: this) (auto simp: listeners_tracked_call)


section \<open>Selecting a track\<close>

lemma fl_three_quarters: "fl (3 / 4) = 3 / 4"
  by code_simp

lemma fl_two_fifths: "fl (2 / 5) = 3602879701896397 / 9007199254740992"
  by code_simp

lemma srcs_at_valid: "0 \<le> i \<Longrightarrow> i < int (length ts) \<Longrightarrow> srcs_at ts i = Some (ts ! nat i)"
  by (simp add: srcs_at_def)

lemma srcs_at_Some: "srcs_at ts i = Some t \<Longrightarrow> 0 \<le> i \<and> i < int (length ts)"
  by (simp add: srcs_at_def split: if_splits)

lemma add_three_listeners:
  "addEventListener ''loadedmetadata'' LoadedmetadataListener
     (addEventListener ''loadeddata'' LoadeddataListener
       (addEventListener ''timeupdate'' TimeupdateListener (new_Audio url))) =
   (new_Audio url)
     \<lparr>listenerList :=
        [(''timeupdate'', TimeupdateListener), (''loadeddata'', LoadeddataListener),
         (''loadedmetadata'', LoadedmetadataListener)]\<rparr>"
  by (simp add: addEventListener_def new_Audio_def)

lemma setAudioVolume_75:
  "currentAudio s = Some a \<Longrightarrow>
   setAudioVolume (Some 75) s =
     Done (console_log (AudioVolumeChangedTo 75) (update_audio a (\<lambda>h. h\<lparr>volume := 3 / 4\<rparr>) s))"
  by (simp add: setAudioVolume_def fl_three_quarters)

lemma setCurrentAudio_first:
  assumes "currentAudio s = None" and "srcs_at (srcs s) i = Some t"
  shows "setCurrentAudio i s =
    Done (s\<lparr>heap := heap s @ [installed_audio (case t of Bare url \<Rightarrow> url | Structure url cover \<Rightarrow> url)],
            currentAudio := Some (length (heap s)), currentAudioIndex := Some i,
            console := console s @ [AudioVolumeChangedTo 75, CurrentPlayingAudioOfIndex (Some i)]\<rparr>)"
  using assms
  by (simp add: setCurrentAudio_def Let_def update_audio_def setAudioVolume_75 add_three_listeners
      console_log_def installed_audio_def)

lemma setCurrentAudio_next:
  assumes "currentAudio s = Some a" and "srcs_at (srcs s) i = Some t"
  shows "setCurrentAudio i s =
    Done (s\<lparr>heap := (heap s)[a := (heap s ! a)\<lparr>paused := True\<rparr>]
              @ [installed_audio (case t of Bare url \<Rightarrow> url | Structure url cover \<Rightarrow> url)],
            currentAudio := Some (length (heap s)), currentAudioIndex := Some i,
            console := console s @ [AudioIsNowPaused, AudioVolumeChangedTo 75,
              CurrentPlayingAudioOfIndex (Some i)]\<rparr>)"
  using assms
  by (simp add: setCurrentAudio_def Let_def pauseAudio_def update_audio_def setAudioVolume_75
      add_three_listeners console_log_def installed_audio_def nth_append list_update_append)


lemma first_selection:
  assumes "srcs_at tracks i = Some t"
  shows "state_of (setCurrentAudio i (new_Player tracks auto)) =
     \<lparr>srcs = tracks, autoplay = auto, currentAudio = Some 0, currentAudioIndex = Some i,
      lastAudioVolume = None,
      heap = [installed_audio (case t of Bare url \<Rightarrow> url | Structure url cover \<Rightarrow> url)],
      audioPlaybackProgressControl = audioPlaybackProgressControl (new_Player tracks auto),
      console = [AudioVolumeChangedTo 75, CurrentPlayingAudioOfIndex (Some i)]\<rparr>"
proof -
  have "currentAudio (new_Player tracks auto) = None"
    and "srcs_at (srcs (new_Player tracks auto)) i = Some t"
    using assms by (simp_all add: new_Player_def)
  then have "setCurrentAudio i (new_Player tracks auto) =
    Done ((new_Player tracks auto)
      \<lparr>heap := heap (new_Player tracks auto)
         @ [installed_audio (case t of Bare url \<Rightarrow> url | Structure url cover \<Rightarrow> url)],
       currentAudio := Some (length (heap (new_Player tracks auto))),
       currentAudioIndex := Some i,
       console := console (new_Player tracks auto)
         @ [AudioVolumeChangedTo 75, CurrentPlayingAudioOfIndex (Some i)]\<rparr>)"
    by (rule setCurrentAudio_first)
  then show ?thesis
    by (simp add: new_Player_def)
qed

lemma example_player_eq:
  "example_player =
     \<lparr>srcs = example_tracks, autoplay = Some True, currentAudio = Some 0,
      currentAudioIndex = Some 1, lastAudioVolume = None, heap = [installed_audio ''b.mp3''],
      audioPlaybackProgressControl =
        audioPlaybackProgressControl (new_Player example_tracks (Some True)),
      console = [AudioVolumeChangedTo 75, CurrentPlayingAudioOfIndex (Some 1)]\<rparr>"
proof -
  have "srcs_at example_tracks 1 = Some (Structure ''b.mp3'' (Some ''b.png''))"
    by (simp add: example_tracks_def srcs_at_def)
  then show ?thesis
    unfolding example_player_def by (simp add: first_selection)
qed

lemma gap_player_eq:
  "gap_player =
     \<lparr>srcs = gap_tracks, autoplay = None, currentAudio = Some 0,
      currentAudioIndex = Some 1, lastAudioVolume = None, heap = [installed_audio ''b.mp3''],
      audioPlaybackProgressControl = audioPlaybackProgressControl (new_Player gap_tracks None),
      console = [AudioVolumeChangedTo 75, CurrentPlayingAudioOfIndex (Some 1)]\<rparr>"
proof -
  have "srcs_at gap_tracks 1 = Some (Bare ''b.mp3'')"
    by (simp add: gap_tracks_def srcs_at_def)
  then show ?thesis
    unfolding gap_player_def by (simp add: first_selection)
qed

lemma blank_player_eq:
  "blank_player =
     \<lparr>srcs = blank_tracks, autoplay = None, currentAudio = Some 0,
      currentAudioIndex = Some 0, lastAudioVolume = None, heap = [installed_audio ''a.mp3''],
      audioPlaybackProgressControl = audioPlaybackProgressControl (new_Player blank_tracks None),
      console = [AudioVolumeChangedTo 75, CurrentPlayingAudioOfIndex (Some 0)]\<rparr>"
proof -
  have "srcs_at blank_tracks 0 = Some (Bare ''a.mp3'')"
    by (simp add: blank_tracks_def srcs_at_def)
  then show ?thesis
    unfolding blank_player_def by (simp add: first_selection)
qed

lemma quiet_player_eq:
  "quiet_player =
     \<lparr>srcs = example_tracks, autoplay = None, currentAudio = Some 0,
      currentAudioIndex = Some 0, lastAudioVolume = None,
      heap = [(installed_audio ''a.mp3'')\<lparr>volume := fl (40 / 100)\<rparr>],
      audioPlaybackProgressControl = audioPlaybackProgressControl (new_Player example_tracks None),
      console = [AudioVolumeChangedTo 75, CurrentPlayingAudioOfIndex (Some 0),
        AudioVolumeChangedTo 40]\<rparr>"
proof -
  have "srcs_at example_tracks 0 = Some (Bare ''a.mp3'')"
    by (simp add: example_tracks_def srcs_at_def)
  then show ?thesis
    unfolding quiet_player_def
    by (simp add: first_selection setAudioVolume_def fl_two_fifths update_audio_def console_log_def)
qed

section \<open>The fields that select the track\<close>

lemma selection_setAudioVolume: "selection (state_of (setAudioVolume vol s)) = selection s"
  by (simp add: setAudioVolume_def selection_def update_audio_def console_log_def Let_def
      split: option.splits)

lemma selection_pauseAudio: "selection (state_of (pauseAudio s)) = selection s"
  by (simp add: pauseAudio_def selection_def update_audio_def console_log_def split: option.splits)

lemma selection_playAudio: "selection (state_of (playAudio s)) = selection s"
  by (simp add: playAudio_def selection_def update_audio_def console_log_def split: option.splits)

lemma selection_mute: "selection (state_of (mute s)) = selection s"
proof (cases "currentAudio s")
  case None
  then show ?thesis by (simp add: mute_def)
next
  case (Some a)
  then show ?thesis
    using selection_setAudioVolume
      [of "Some 0" "s\<lparr>lastAudioVolume := Some (fl (volume (heap s ! a) * 100))\<rparr>"]
    by (simp add: mute_def selection_def)
qed

lemma selection_unmute: "selection (state_of (unmute s)) = selection s"
  by (simp add: unmute_def selection_setAudioVolume)

lemma selection_run_listener: "selection (state_of (run_listener cb target s)) = selection s"
proof (cases cb)
  case TimeupdateListener
  then show ?thesis by (simp add: selection_def)
next
  case LoadeddataListener
  then show ?thesis by (simp add: selection_playAudio)
next
  case LoadedmetadataListener
  then show ?thesis by (simp add: selection_def Let_def split: option.splits)
qed

lemma selection_dispatch:
  "selection (foldl (\<lambda>s cb. state_of (run_listener cb target s)) s cbs) = selection s"
  by (induction cbs arbitrary: s) (simp_all add: selection_run_listener)

lemma index_valid_selection: "selection s' = selection s \<Longrightarrow> index_valid s' = index_valid s"
  by (simp add: selection_def index_valid_def split: option.splits)


lemma index_valid_setCurrentAudio:
  assumes "index_valid s"
  shows "index_valid (state_of (setCurrentAudio index s))"
proof (cases "srcs_at (srcs s) index")
  case None
  from assms have "index_valid (state_of (pauseAudio s))"
    using index_valid_selection [OF selection_pauseAudio] by simp
  with None assms show ?thesis
    by (cases "pauseAudio s") (auto simp: setCurrentAudio_def)
next
  case (Some t)
  then have range: "0 \<le> index \<and> index < int (length (srcs s))"
    by (rule srcs_at_Some)
  show ?thesis
  proof (cases "currentAudio s")
    case None
    with range show ?thesis
      by (simp add: setCurrentAudio_first [OF None Some] index_valid_def)
  next
    case (Some a)
    with range show ?thesis
      by (simp add: setCurrentAudio_next [OF Some \<open>srcs_at (srcs s) index = Some t\<close>] index_valid_def)
  qed
qed

lemma last_player_eq:
  "last_player =
     \<lparr>srcs = example_tracks, autoplay = None, currentAudio = Some 0,
      currentAudioIndex = Some 2, lastAudioVolume = None, heap = [installed_audio ''c.mp3''],
      audioPlaybackProgressControl = audioPlaybackProgressControl (new_Player example_tracks None),
      console = [AudioVolumeChangedTo 75, CurrentPlayingAudioOfIndex (Some 2)]\<rparr>"
proof -
  have "srcs_at example_tracks 2 = Some (Bare ''c.mp3'')"
    by (simp add: example_tracks_def srcs_at_def)
  then show ?thesis
    unfolding last_player_def by (simp add: first_selection)
qed

lemma invoked_installed_loadeddata:
  "invoked (installed_audio url) ''loadeddata'' = [LoadeddataListener]"
  by (simp add: invoked_def installed_audio_def)


section \<open>Volume and muting\<close>

lemma setAudioVolume_Some:
  assumes "currentAudio s = Some a" and "0 \<le> fl (v / 100)" and "fl (v / 100) \<le> 1"
  shows "setAudioVolume (Some v) s =
    Done (console_log (AudioVolumeChangedTo v) (update_audio a (\<lambda>h. h\<lparr>volume := fl (v / 100)\<rparr>) s))"
  using assms by (simp add: setAudioVolume_def)

lemma mute_eq:
  assumes "currentAudio s = Some a"
  shows "mute s =
    Done (console_log (AudioVolumeChangedTo 0)
      (update_audio a (\<lambda>h. h\<lparr>volume := 0\<rparr>)
        (s\<lparr>lastAudioVolume := Some (fl (volume (heap s ! a) * 100))\<rparr>)))"
  using assms by (simp add: mute_def setAudioVolume_def fl_zero)

lemma volume_after_update:
  "a < length (heap s) \<Longrightarrow>
   volume (heap (console_log line (update_audio a (\<lambda>h. h\<lparr>volume := x\<rparr>) s)) ! a) = x"
  by (simp add: console_log_def update_audio_def)

text \<open>
  What \<open>_mute\<close> stores is the volume times 100, which need not be the percentage that was
  set: for 7 it is the next binary64 number above 7. Dividing it by 100 still gives the
  volume back, by \<open>fl_percent_round_trip\<close>.
\<close>

lemma stored_percentage_inexact: "fl (fl (7 / 100) * 100) \<noteq> 7"
  by code_simp

lemma is_double_40: "is_double 40"
  using fl_representable [of 40 0] by (simp add: is_double_def)

lemma setAudioVolume_cases:
  assumes "currentAudio s = Some a" and "a < length (heap s)"
  shows "currentAudio (state_of (setAudioVolume vol s)) = Some a
    \<and> length (heap (state_of (setAudioVolume vol s))) = length (heap s)
    \<and> lastAudioVolume (state_of (setAudioVolume vol s)) = lastAudioVolume s
    \<and> (if 0 \<le> fl (toNumber vol / 100) \<and> fl (toNumber vol / 100) \<le> 1
        then volume (heap (state_of (setAudioVolume vol s)) ! a) = fl (toNumber vol / 100)
        else volume (heap (state_of (setAudioVolume vol s)) ! a) = volume (heap s ! a))"
  using assms
  by (cases vol) (simp_all add: setAudioVolume_def Let_def console_log_def update_audio_def)

lemma muted_player_facts:
  "currentAudio muted_player = Some 0" "length (heap muted_player) = 1"
  "volume (heap muted_player ! 0) = 0" "lastAudioVolume muted_player = Some (fl (3 / 4 * 100))"
proof -
  have cur: "currentAudio example_player = Some 0"
    by (simp add: example_player_eq)
  show "currentAudio muted_player = Some 0" "length (heap muted_player) = 1"
    "volume (heap muted_player ! 0) = 0" "lastAudioVolume muted_player = Some (fl (3 / 4 * 100))"
    unfolding muted_player_def mute_eq [OF cur]
    by (simp_all add: example_player_eq console_log_def update_audio_def installed_audio_def)
qed

section \<open>The claims\<close>

text \<open>
  Claim C8: take a new node and any sequence of calls on it (\<open>on\<close>, \<open>setText\<close>,
  \<open>setAttribute\<close>, \<open>removeEventListeners\<close>). After one more call of
  \<open>removeEventListeners\<close> no event of any type invokes a callback, and a second call of
  \<open>removeEventListeners\<close> leaves the node as it is.
\<close>

theorem removeEventListeners_detaches_all:
  "invoked (htmlElement (removeEventListeners (foldl call_element (new_Element htmlTag attrs) calls))) ev = []
   \<and> removeEventListeners (removeEventListeners (foldl call_element (new_Element htmlTag attrs) calls))
     = removeEventListeners (foldl call_element (new_Element htmlTag attrs) calls)"
proof -
  let ?node = "foldl call_element (new_Element htmlTag attrs) calls"
  have "listeners_tracked ?node"
    by (rule listeners_tracked_calls) (rule listeners_tracked_new)
  then have cleared: "listenerList (htmlElement (removeEventListeners ?node)) = []"
    by (rule removeEventListeners_clears)
  then show ?thesis
    by (simp add: invoked_def removeEventListeners_of_cleared)
qed

text \<open>
  Claim C5: every operation of the player preserves the invariant that, whenever there is
  a current audio object, the current index is a position of \<open>srcs\<close>. (No precondition
  of the operation is needed: \<open>setCurrentAudio\<close> throws before it creates an audio object
  when \<open>srcs\<close> has no entry at the index.)
\<close>

theorem index_valid_preserved:
  assumes "index_valid s"
  shows "index_valid (perform op s)"
proof (cases op)
  case (SetCurrentAudio index)
  with assms show ?thesis by (simp add: index_valid_setCurrentAudio)
next
  case (SetAudioVolume vol)
  with assms show ?thesis using index_valid_selection [OF selection_setAudioVolume] by simp
next
  case (SetAudioCurrentTime second)
  with assms show ?thesis
    by (simp add: setAudioCurrentTime_def index_valid_def update_audio_def console_log_def
        split: option.splits)
next
  case Mute
  with assms show ?thesis using index_valid_selection [OF selection_mute] by simp
next
  case Unmute
  with assms show ?thesis using index_valid_selection [OF selection_unmute] by simp
next
  case ToggleAudioVolume
  with assms show ?thesis
    using index_valid_selection [OF selection_mute] index_valid_selection [OF selection_unmute]
    by (simp add: toggleAudioVolume_def split: option.splits)
next
  case PlayAudio
  with assms show ?thesis using index_valid_selection [OF selection_playAudio] by simp
next
  case PauseAudio
  with assms show ?thesis using index_valid_selection [OF selection_pauseAudio] by simp
next
  case SkipPrevious
  with assms show ?thesis by (simp add: skipPrevious_def Let_def index_valid_setCurrentAudio)
next
  case SkipNext
  have "index_valid (state_of (andThen r (\<lambda>s. Done (console_log SkipNextLine s)))) =
        index_valid (state_of r)" for r
    by (cases r) (simp_all add: index_valid_def console_log_def split: option.splits)
  with SkipNext assms show ?thesis
    by (simp add: skipNext_def Let_def index_valid_setCurrentAudio)
next
  case ToggleAudioPlayback
  with assms show ?thesis
    using index_valid_selection [OF selection_playAudio] index_valid_selection [OF selection_pauseAudio]
    by (simp add: toggleAudioPlayback_def split: option.splits)
next
  case (Event target ev)
  with assms show ?thesis
    using index_valid_selection [OF selection_dispatch] by (simp add: dispatchEvent_def)
qed


text \<open>
  Witness for C5: \<open>example_player\<close> and \<open>skipNext\<close>.
\<close>

theorem index_valid_preserved_witness:
  "index_valid example_player \<and> index_valid (perform SkipNext example_player)"
proof -
  have "index_valid example_player"
    by (simp add: example_player_eq index_valid_def example_tracks_def)
  then show ?thesis
    using index_valid_preserved [of example_player SkipNext] by simp
qed

text \<open>
  Claim C4: for every valid index \<open>i\<close>, \<open>setCurrentAudio i\<close> returns and leaves the current
  index \<open>i\<close> and, as the current audio object, a new one (its name is the first one not
  in use before the call), paused, at position 0, whose source is the resolved source of
  track \<open>i\<close>: the track itself when it is a string, its \<open>audio\<close> field when it is a
  structure.
\<close>

theorem setCurrentAudio_selects:
  assumes "0 \<le> i" and "i < int (length (srcs s))"
  shows "\<exists>s'. setCurrentAudio i s = Done s'
    \<and> currentAudioIndex s' = Some i
    \<and> currentAudio s' = Some (length (heap s))
    \<and> length (heap s') = Suc (length (heap s))
    \<and> src (heap s' ! length (heap s)) =
        (case srcs s ! nat i of Bare url \<Rightarrow> url | Structure url cover \<Rightarrow> url)
    \<and> paused (heap s' ! length (heap s))
    \<and> currentTime (heap s' ! length (heap s)) = 0"
proof -
  from assms have at: "srcs_at (srcs s) i = Some (srcs s ! nat i)"
    by (rule srcs_at_valid)
  show ?thesis
  proof (cases "currentAudio s")
    case None
    then show ?thesis
      by (simp add: setCurrentAudio_first [OF None at] installed_audio_def new_Audio_def)
  next
    case (Some a)
    then show ?thesis
      by (simp add: setCurrentAudio_next [OF Some at] installed_audio_def new_Audio_def nth_append)
  qed
qed

text \<open>
  Witness for C4: \<open>example_player\<close> and index 1, the structure with the source b.mp3.
\<close>

theorem setCurrentAudio_selects_witness:
  "(0::int) \<le> 1 \<and> 1 < int (length (srcs example_player))
   \<and> (\<exists>s'. setCurrentAudio 1 example_player = Done s'
    \<and> currentAudioIndex s' = Some 1
    \<and> currentAudio s' = Some (length (heap example_player))
    \<and> length (heap s') = Suc (length (heap example_player))
    \<and> src (heap s' ! length (heap example_player)) = ''b.mp3''
    \<and> paused (heap s' ! length (heap example_player))
    \<and> currentTime (heap s' ! length (heap example_player)) = 0)"
proof -
  have "srcs example_player = example_tracks"
    by (simp add: example_player_eq)
  then have "1 < int (length (srcs example_player))"
    and "srcs example_player ! nat 1 = Structure ''b.mp3'' (Some ''b.png'')"
    by (simp_all add: example_tracks_def)
  then show ?thesis
    using setCurrentAudio_selects [of 1 example_player] by simp
qed

text \<open>
  Claim C1, amended: for every valid index \<open>i\<close>, \<open>setCurrentAudio i\<close> sets the volume of the
  audio object it creates to 75 percent (the handle volume \<open>75 / 100\<close>), whatever the volume
  of the previous audio object was.
\<close>

theorem setCurrentAudio_volume_75:
  assumes "0 \<le> i" and "i < int (length (srcs s))"
  shows "currentAudio (state_of (setCurrentAudio i s)) = Some (length (heap s))
    \<and> volume (heap (state_of (setCurrentAudio i s)) ! length (heap s)) = fl (75 / 100)"
proof -
  from assms have at: "srcs_at (srcs s) i = Some (srcs s ! nat i)"
    by (rule srcs_at_valid)
  show ?thesis
  proof (cases "currentAudio s")
    case None
    then show ?thesis
      by (simp add: setCurrentAudio_first [OF None at] installed_audio_def fl_three_quarters)
  next
    case (Some a)
    then show ?thesis
      by (simp add: setCurrentAudio_next [OF Some at] installed_audio_def fl_three_quarters
          nth_append)
  qed
qed

text \<open>
  Witness for C1: the player whose volume was set to 40, at index 1.
\<close>

theorem setCurrentAudio_volume_75_witness:
  "(0::int) \<le> 1 \<and> 1 < int (length (srcs quiet_player))
   \<and> currentAudio (state_of (setCurrentAudio 1 quiet_player)) = Some (length (heap quiet_player))
   \<and> volume (heap (state_of (setCurrentAudio 1 quiet_player)) ! length (heap quiet_player))
       = fl (75 / 100)"
proof -
  have "1 < int (length (srcs quiet_player))"
    by (simp add: quiet_player_eq example_tracks_def)
  then show ?thesis
    using setCurrentAudio_volume_75 [of 1 quiet_player] by simp
qed

text \<open>
  Counterexample to C1 as stated: tracks a.mp3, b.mp3 and c.mp3, track 0 selected and the
  volume set to 40. The current audio object has the volume \<open>fl (40 / 100)\<close>; after
  \<open>setCurrentAudio 1\<close> the new audio object has the volume \<open>fl (75 / 100)\<close>, which is another
  number.
\<close>

theorem setCurrentAudio_volume_counterexample:
  "currentAudio quiet_player = Some 0
   \<and> volume (heap quiet_player ! 0) = fl (40 / 100)
   \<and> currentAudio (state_of (setCurrentAudio 1 quiet_player)) = Some 1
   \<and> volume (heap (state_of (setCurrentAudio 1 quiet_player)) ! 1) = fl (75 / 100)
   \<and> fl (75 / 100) \<noteq> fl (40 / 100)"
proof -
  have "currentAudio quiet_player = Some 0"
    and "srcs_at (srcs quiet_player) 1 = Some (Structure ''b.mp3'' (Some ''b.png''))"
    by (simp_all add: quiet_player_eq example_tracks_def srcs_at_def)
  then have "setCurrentAudio 1 quiet_player =
    Done (quiet_player\<lparr>heap := (heap quiet_player)[0 := (heap quiet_player ! 0)\<lparr>paused := True\<rparr>]
              @ [installed_audio ''b.mp3''],
            currentAudio := Some (length (heap quiet_player)), currentAudioIndex := Some 1,
            console := console quiet_player @ [AudioIsNowPaused, AudioVolumeChangedTo 75,
              CurrentPlayingAudioOfIndex (Some 1)]\<rparr>)"
    using setCurrentAudio_next [of quiet_player 0 1] by simp
  then show ?thesis
    by (simp add: quiet_player_eq installed_audio_def fl_three_quarters fl_two_fifths)
qed

text \<open>
  Claim C3, amended: \<open>skipNext\<close> computes the current index plus 1 and \<open>skipPrevious\<close> the
  current index minus 1 (no index counts as 0), and each calls \<open>setCurrentAudio\<close> with
  the new index if and only if the entry of \<open>srcs\<close> at that position is truthy, that is,
  present and not the empty string. Otherwise the state of the player stays as it is
  (\<open>skipNext\<close> still writes its line to the console). In particular \<open>skipNext\<close> at the last
  index and \<open>skipPrevious\<close> at index 0 change nothing.
\<close>

theorem skip_truthy:
  "skipNext s =
     (if truthy (srcs_at (srcs s) (toInteger (currentAudioIndex s) + 1))
      then andThen (setCurrentAudio (toInteger (currentAudioIndex s) + 1) s)
             (\<lambda>s. Done (console_log SkipNextLine s))
      else Done (console_log SkipNextLine s))
   \<and> skipPrevious s =
     (if truthy (srcs_at (srcs s) (toInteger (currentAudioIndex s) - 1))
      then setCurrentAudio (toInteger (currentAudioIndex s) - 1) s
      else Done s)
   \<and> (currentAudioIndex s = Some (int (length (srcs s)) - 1) \<longrightarrow>
        skipNext s = Done (console_log SkipNextLine s))
   \<and> (currentAudioIndex s = Some 0 \<longrightarrow> skipPrevious s = Done s)"
  by (simp add: skipNext_def skipPrevious_def srcs_at_def)

text \<open>
  Witness for C3: \<open>quiet_player\<close> is at index 0, \<open>last_player\<close> at the last index.
\<close>

theorem skip_truthy_witness:
  "currentAudioIndex last_player = Some (int (length (srcs last_player)) - 1)
   \<and> skipNext last_player = Done (console_log SkipNextLine last_player)
   \<and> currentAudioIndex quiet_player = Some 0
   \<and> skipPrevious quiet_player = Done quiet_player"
proof -
  have last: "currentAudioIndex last_player = Some (int (length (srcs last_player)) - 1)"
    by (simp add: last_player_eq example_tracks_def)
  have first: "currentAudioIndex quiet_player = Some 0"
    by (simp add: quiet_player_eq)
  from last have "skipNext last_player = Done (console_log SkipNextLine last_player)"
    using skip_truthy [of last_player] by blast
  moreover from first have "skipPrevious quiet_player = Done quiet_player"
    using skip_truthy [of quiet_player] by blast
  ultimately show ?thesis
    using last first by blast
qed

text \<open>
  Counterexample to C3 as stated: tracks a.mp3 and the empty string, track 0 selected.
  There is a track at index 1, yet \<open>skipNext\<close> does not call \<open>setCurrentAudio 1\<close>: it only
  writes its line and the index stays 0, where \<open>setCurrentAudio 1\<close> makes it 1.
\<close>

theorem skipNext_existing_track_counterexample:
  "srcs_at (srcs blank_player) (toInteger (currentAudioIndex blank_player) + 1) = Some (Bare [])
   \<and> skipNext blank_player = Done (console_log SkipNextLine blank_player)
   \<and> currentAudioIndex (state_of (skipNext blank_player)) = Some 0
   \<and> currentAudioIndex (state_of (setCurrentAudio 1 blank_player)) = Some 1"
proof -
  have at: "srcs_at (srcs blank_player) (toInteger (currentAudioIndex blank_player) + 1) = Some (Bare [])"
    and at1: "srcs_at (srcs blank_player) 1 = Some (Bare [])"
    and cur: "currentAudio blank_player = Some 0"
    and idx: "currentAudioIndex blank_player = Some 0"
    by (simp_all add: blank_player_eq blank_tracks_def srcs_at_def)
  from at have skip: "skipNext blank_player = Done (console_log SkipNextLine blank_player)"
    by (simp add: skipNext_def)
  have "currentAudioIndex (state_of (setCurrentAudio 1 blank_player)) = Some 1"
    by (simp add: setCurrentAudio_next [OF cur at1])
  with at skip idx show ?thesis
    by (simp add: console_log_def)
qed

text \<open>
  Claim C7: when \<open>srcs\<close> has a track 0, \<open>setCurrentAudio 0\<close> leaves a new, paused current
  audio object; when the loadeddata event fires on it, a player with \<open>autoplay = true\<close>
  starts its playback, and a player with \<open>autoplay\<close> false or absent stays as it is.
\<close>

theorem autoplay_on_loadeddata:
  assumes "srcs s \<noteq> []"
  shows "currentAudio (state_of (setCurrentAudio 0 s)) = Some (length (heap s))
   \<and> paused (heap (state_of (setCurrentAudio 0 s)) ! length (heap s))
   \<and> (autoplay s = Some True \<longrightarrow>
        \<not> paused (heap (dispatchEvent (length (heap s)) ''loadeddata'' (state_of (setCurrentAudio 0 s)))
                    ! length (heap s)))
   \<and> (autoplay s \<noteq> Some True \<longrightarrow>
        dispatchEvent (length (heap s)) ''loadeddata'' (state_of (setCurrentAudio 0 s))
          = state_of (setCurrentAudio 0 s))"
proof -
  from assms have at: "srcs_at (srcs s) 0 = Some (srcs s ! nat 0)"
    by (intro srcs_at_valid) simp_all
  show ?thesis
  proof (cases "currentAudio s")
    case None
    show ?thesis
      by (simp add: setCurrentAudio_first [OF None at] dispatchEvent_def
          invoked_installed_loadeddata playAudio_def update_audio_def console_log_def)
         (simp add: installed_audio_def new_Audio_def)
  next
    case (Some a)
    show ?thesis
      by (simp add: setCurrentAudio_next [OF Some at] dispatchEvent_def nth_append
          invoked_installed_loadeddata playAudio_def update_audio_def console_log_def)
         (simp add: installed_audio_def new_Audio_def)
  qed
qed

text \<open>
  Witness for C7: a new player with autoplay, and \<open>quiet_player\<close>, which has none.
\<close>

theorem autoplay_on_loadeddata_witness:
  "srcs (new_Player example_tracks (Some True)) \<noteq> []
   \<and> autoplay (new_Player example_tracks (Some True)) = Some True
   \<and> paused (heap (state_of (setCurrentAudio 0 (new_Player example_tracks (Some True)))) ! 0)
   \<and> \<not> paused (heap (dispatchEvent 0 ''loadeddata''
         (state_of (setCurrentAudio 0 (new_Player example_tracks (Some True))))) ! 0)
   \<and> srcs quiet_player \<noteq> [] \<and> autoplay quiet_player \<noteq> Some True
   \<and> dispatchEvent (length (heap quiet_player)) ''loadeddata'' (state_of (setCurrentAudio 0 quiet_player))
          = state_of (setCurrentAudio 0 quiet_player)"
proof -
  have "srcs (new_Player example_tracks (Some True)) \<noteq> []"
    and "autoplay (new_Player example_tracks (Some True)) = Some True"
    and "length (heap (new_Player example_tracks (Some True))) = 0"
    by (simp_all add: new_Player_def example_tracks_def)
  moreover have "srcs quiet_player \<noteq> []" and "autoplay quiet_player \<noteq> Some True"
    by (simp_all add: quiet_player_eq example_tracks_def)
  ultimately show ?thesis
    using autoplay_on_loadeddata [of "new_Player example_tracks (Some True)"]
      autoplay_on_loadeddata [of quiet_player]
    by simp
qed

text \<open>
  Claim C9: when there is a current audio object and \<open>srcs\<close> has no entry at \<open>index\<close>,
  \<open>setCurrentAudio index\<close> pauses the current audio object and then throws TypeError; the
  state it leaves is the one \<open>pauseAudio\<close> leaves, with the same current index and the same
  current audio object, and no audio object created.
\<close>

theorem setCurrentAudio_missing_entry:
  assumes "currentAudio s = Some a" and "a < length (heap s)" and "srcs_at (srcs s) index = None"
  shows "\<exists>s'. setCurrentAudio index s = Raised TypeError s'
    \<and> Done s' = pauseAudio s
    \<and> paused (heap s' ! a)
    \<and> currentAudioIndex s' = currentAudioIndex s
    \<and> currentAudio s' = currentAudio s
    \<and> length (heap s') = length (heap s)"
  using assms
  by (simp add: setCurrentAudio_def pauseAudio_def update_audio_def console_log_def)

text \<open>
  Witness for C9: \<open>example_player\<close> while it plays, and index 3 of its three tracks.
\<close>

theorem setCurrentAudio_missing_entry_witness:
  "currentAudio (state_of (playAudio example_player)) = Some 0
   \<and> 0 < length (heap (state_of (playAudio example_player)))
   \<and> srcs_at (srcs (state_of (playAudio example_player))) 3 = None
   \<and> \<not> paused (heap (state_of (playAudio example_player)) ! 0)
   \<and> (\<exists>s'. setCurrentAudio 3 (state_of (playAudio example_player)) = Raised TypeError s'
    \<and> Done s' = pauseAudio (state_of (playAudio example_player))
    \<and> paused (heap s' ! 0)
    \<and> currentAudioIndex s' = currentAudioIndex (state_of (playAudio example_player))
    \<and> currentAudio s' = currentAudio (state_of (playAudio example_player))
    \<and> length (heap s') = length (heap (state_of (playAudio example_player))))"
proof -
  have "currentAudio (state_of (playAudio example_player)) = Some 0"
    and "0 < length (heap (state_of (playAudio example_player)))"
    and "srcs_at (srcs (state_of (playAudio example_player))) 3 = None"
    and "\<not> paused (heap (state_of (playAudio example_player)) ! 0)"
    by (simp_all add: example_player_eq playAudio_def update_audio_def console_log_def
        srcs_at_def example_tracks_def)
  then show ?thesis
    using setCurrentAudio_missing_entry [of "state_of (playAudio example_player)" 0 3]
    by simp
qed

text \<open>
  Claim C10: the skip operations test the truthiness of the entry of \<open>srcs\<close>. When the
  entry at the next (respectively previous) position is the empty string, \<open>skipNext\<close>
  (respectively \<open>skipPrevious\<close>) does not select it: \<open>skipNext\<close> only writes its line to the
  console and \<open>skipPrevious\<close> does nothing.
\<close>

theorem skip_empty_string_entry:
  "(srcs_at (srcs s) (toInteger (currentAudioIndex s) + 1) = Some (Bare []) \<longrightarrow>
      skipNext s = Done (console_log SkipNextLine s))
   \<and> (srcs_at (srcs s) (toInteger (currentAudioIndex s) - 1) = Some (Bare []) \<longrightarrow>
      skipPrevious s = Done s)"
  by (simp add: skipNext_def skipPrevious_def)

text \<open>
  Witness for C10: the tracks are the empty string, b.mp3 and the empty string, and
  track 1 is selected.
\<close>

theorem skip_empty_string_entry_witness:
  "srcs_at (srcs gap_player) (toInteger (currentAudioIndex gap_player) + 1) = Some (Bare [])
   \<and> skipNext gap_player = Done (console_log SkipNextLine gap_player)
   \<and> srcs_at (srcs gap_player) (toInteger (currentAudioIndex gap_player) - 1) = Some (Bare [])
   \<and> skipPrevious gap_player = Done gap_player"
proof -
  have "srcs_at (srcs gap_player) (toInteger (currentAudioIndex gap_player) + 1) = Some (Bare [])"
    and "srcs_at (srcs gap_player) (toInteger (currentAudioIndex gap_player) - 1) = Some (Bare [])"
    by (simp_all add: gap_player_eq gap_tracks_def srcs_at_def)
  then show ?thesis
    using skip_empty_string_entry [of gap_player] by simp
qed

text \<open>
  Claim C2: let there be a current audio object and let \<open>v\<close> be a number between 0 and 100.
  After \<open>_setAudioVolume v\<close> the volume of the audio object is \<open>v / 100\<close> (rounded as
  the division rounds it); \<open>_mute\<close> then makes it 0, and \<open>_unmute\<close> after that makes it
  exactly \<open>v / 100\<close> again and leaves every audio object as it was before the mute. All
  three calls return.
\<close>

theorem mute_unmute_round_trip:
  assumes "currentAudio s = Some a" and "a < length (heap s)"
    and "is_double v" and "0 \<le> v" and "v \<le> 100"
  shows "\<exists>s1 s2 s3.
      setAudioVolume (Some v) s = Done s1 \<and> volume (heap s1 ! a) = fl (v / 100)
    \<and> mute s1 = Done s2 \<and> volume (heap s2 ! a) = 0
    \<and> unmute s2 = Done s3 \<and> volume (heap s3 ! a) = fl (v / 100)
    \<and> heap s3 = heap s1"
proof -
  define x where "x = fl (v / 100)"
  have range: "0 \<le> x" "x \<le> 1"
    unfolding x_def using fl_percent_in_range [OF assms(4,5)] by simp_all
  have restored: "fl (fl (x * 100) / 100) = x"
    unfolding x_def using assms(3,4) by (intro fl_percent_round_trip) (simp_all add: is_double_def)
  define s1 where "s1 = console_log (AudioVolumeChangedTo v) (update_audio a (\<lambda>h. h\<lparr>volume := x\<rparr>) s)"
  have 1: "setAudioVolume (Some v) s = Done s1"
    unfolding s1_def x_def using assms(1) range by (intro setAudioVolume_Some) (simp_all add: x_def)
  have cur1: "currentAudio s1 = Some a" and len1: "a < length (heap s1)"
    and vol1: "volume (heap s1 ! a) = x"
    using assms(1,2) by (simp_all add: s1_def console_log_def update_audio_def)
  define s2 where "s2 = console_log (AudioVolumeChangedTo 0)
      (update_audio a (\<lambda>h. h\<lparr>volume := 0\<rparr>) (s1\<lparr>lastAudioVolume := Some (fl (x * 100))\<rparr>))"
  have 2: "mute s1 = Done s2"
    unfolding s2_def using mute_eq [OF cur1] by (simp only: vol1)
  have cur2: "currentAudio s2 = Some a" and len2: "a < length (heap s2)"
    and vol2: "volume (heap s2 ! a) = 0" and last2: "lastAudioVolume s2 = Some (fl (x * 100))"
    using cur1 len1 by (simp_all add: s2_def console_log_def update_audio_def)
  define s3 where "s3 = console_log (AudioVolumeChangedTo (fl (x * 100)))
      (update_audio a (\<lambda>h. h\<lparr>volume := x\<rparr>) s2)"
  have 3: "unmute s2 = Done s3"
    unfolding s3_def unmute_def last2 using cur2 range setAudioVolume_Some [of s2 a "fl (x * 100)"]
    by (simp add: restored)
  have vol3: "volume (heap s3 ! a) = x"
    using len2 by (simp add: s3_def console_log_def update_audio_def)
  have "heap s3 = (heap s1)[a := (heap s1 ! a)\<lparr>volume := x\<rparr>]"
    using len1 by (simp add: s3_def s2_def console_log_def update_audio_def)
  also have "(heap s1 ! a)\<lparr>volume := x\<rparr> = heap s1 ! a"
    using vol1 by simp
  finally have "heap s3 = heap s1" by simp
  with 1 2 3 vol1 vol2 vol3 show ?thesis
    unfolding x_def by blast
qed

text \<open>
  Witness for C2: \<open>example_player\<close> and the volume 40.
\<close>

theorem mute_unmute_round_trip_witness:
  "currentAudio example_player = Some 0 \<and> 0 < length (heap example_player)
   \<and> is_double 40 \<and> (0::rat) \<le> 40 \<and> (40::rat) \<le> 100
   \<and> (\<exists>s1 s2 s3.
      setAudioVolume (Some 40) example_player = Done s1 \<and> volume (heap s1 ! 0) = fl (40 / 100)
    \<and> mute s1 = Done s2 \<and> volume (heap s2 ! 0) = 0
    \<and> unmute s2 = Done s3 \<and> volume (heap s3 ! 0) = fl (40 / 100)
    \<and> heap s3 = heap s1)"
proof -
  have "currentAudio example_player = Some 0" and "0 < length (heap example_player)"
    by (simp_all add: example_player_eq)
  then show ?thesis
    using mute_unmute_round_trip [of example_player 0 40] is_double_40 by simp
qed

text \<open>
  Claim C6: let there be a current audio object, with a volume that an audio element can
  have (a binary64 number, at most 1). \<open>_toggleAudioVolume\<close> mutes when the volume is above
  zero and unmutes otherwise, and two calls in a row leave the player audible if it was
  audible and muted if it was muted.
\<close>

theorem toggleAudioVolume_twice:
  assumes "currentAudio s = Some a" and "a < length (heap s)"
    and "is_double (volume (heap s ! a))" and "volume (heap s ! a) \<le> 1"
  shows "toggleAudioVolume s = (if audible s then mute s else unmute s)
    \<and> audible (state_of (toggleAudioVolume (state_of (toggleAudioVolume s)))) = audible s"
proof -
  define h where "h = volume (heap s ! a)"
  have toggle: "toggleAudioVolume t = (if audible t then mute t else unmute t)"
    if "currentAudio t = Some a" for t
    using that by (simp add: toggleAudioVolume_def audible_def)
  have aud: "audible t = (0 < volume (heap t ! a))" if "currentAudio t = Some a" for t
    using that by (simp add: audible_def)
  show ?thesis
  proof (cases "0 < h")
    case True
    then have a0: "audible s" using assms(1) by (simp add: aud h_def)
    define s1 where "s1 = console_log (AudioVolumeChangedTo 0)
      (update_audio a (\<lambda>h. h\<lparr>volume := 0\<rparr>) (s\<lparr>lastAudioVolume := Some (fl (h * 100))\<rparr>))"
    have 1: "toggleAudioVolume s = Done s1"
      using a0 mute_eq [OF assms(1)] by (simp add: toggle [OF assms(1)] s1_def h_def)
    have cur1: "currentAudio s1 = Some a" and len1: "a < length (heap s1)"
      and vol1: "volume (heap s1 ! a) = 0" and last1: "lastAudioVolume s1 = Some (fl (h * 100))"
      using assms(1,2) by (simp_all add: s1_def console_log_def update_audio_def)
    have range: "0 < fl (fl (h * 100) / 100) \<and> fl (fl (h * 100) / 100) \<le> 1"
      using assms(3,4) True by (intro fl_restored_audible) (simp_all add: is_double_def h_def)
    have "\<not> audible s1" using cur1 vol1 by (simp add: aud)
    then have "toggleAudioVolume s1 = setAudioVolume (Some (fl (h * 100))) s1"
      by (simp add: toggle [OF cur1] unmute_def last1)
    moreover have "volume (heap (state_of (setAudioVolume (Some (fl (h * 100))) s1)) ! a)
        = fl (fl (h * 100) / 100)"
      using setAudioVolume_cases [OF cur1 len1, of "Some (fl (h * 100))"] range by simp
    moreover have "currentAudio (state_of (setAudioVolume (Some (fl (h * 100))) s1)) = Some a"
      using setAudioVolume_cases [OF cur1 len1, of "Some (fl (h * 100))"] by simp
    ultimately have "audible (state_of (toggleAudioVolume s1))"
      using range by (simp add: aud)
    with 1 a0 show ?thesis
      by (simp add: toggle [OF assms(1)])
  next
    case False
    then have a0: "\<not> audible s" using assms(1) by (simp add: aud h_def)
    define x where "x = fl (toNumber (lastAudioVolume s) / 100)"
    define s1 where "s1 = state_of (toggleAudioVolume s)"
    have s1: "s1 = state_of (setAudioVolume (lastAudioVolume s) s)"
      using a0 by (simp add: s1_def toggle [OF assms(1)] unmute_def)
    have cur1: "currentAudio s1 = Some a" and len1: "a < length (heap s1)"
      and last1: "lastAudioVolume s1 = lastAudioVolume s"
      using setAudioVolume_cases [OF assms(1,2), of "lastAudioVolume s"] assms(2)
      by (simp_all add: s1)
    have vol1: "volume (heap s1 ! a) = (if 0 \<le> x \<and> x \<le> 1 then x else h)"
      using setAudioVolume_cases [OF assms(1,2), of "lastAudioVolume s"]
      by (simp add: s1 x_def h_def)
    have "\<not> audible (state_of (toggleAudioVolume s1))"
    proof (cases "audible s1")
      case True
      have "toggleAudioVolume s1 = mute s1"
        using True by (simp add: toggle [OF cur1])
      then show ?thesis
        using cur1 len1
        by (simp add: mute_eq [OF cur1] audible_def console_log_def update_audio_def)
    next
      case False
      then have "toggleAudioVolume s1 = setAudioVolume (lastAudioVolume s) s1"
        by (simp add: toggle [OF cur1] unmute_def last1)
      moreover have "volume (heap (state_of (setAudioVolume (lastAudioVolume s) s1)) ! a)
          = volume (heap s1 ! a)"
        using setAudioVolume_cases [OF cur1 len1, of "lastAudioVolume s"] vol1
        by (simp add: x_def split: if_splits)
      moreover have "currentAudio (state_of (setAudioVolume (lastAudioVolume s) s1)) = Some a"
        using setAudioVolume_cases [OF cur1 len1, of "lastAudioVolume s"] by simp
      ultimately show ?thesis
        using False cur1 by (simp add: aud)
    qed
    with a0 show ?thesis
      by (simp add: toggle [OF assms(1)] s1_def)
  qed
qed

text \<open>
  Witness for C6: \<open>example_player\<close>, which is audible, and \<open>muted_player\<close>, which is muted.
\<close>

theorem toggleAudioVolume_twice_witness:
  "currentAudio example_player = Some 0 \<and> 0 < length (heap example_player)
   \<and> is_double (volume (heap example_player ! 0)) \<and> volume (heap example_player ! 0) \<le> 1
   \<and> audible example_player
   \<and> toggleAudioVolume example_player = mute example_player
   \<and> audible (state_of (toggleAudioVolume (state_of (toggleAudioVolume example_player))))
   \<and> currentAudio muted_player = Some 0 \<and> 0 < length (heap muted_player)
   \<and> is_double (volume (heap muted_player ! 0)) \<and> volume (heap muted_player ! 0) \<le> 1
   \<and> \<not> audible muted_player
   \<and> toggleAudioVolume muted_player = unmute muted_player
   \<and> \<not> audible (state_of (toggleAudioVolume (state_of (toggleAudioVolume muted_player))))"
proof -
  have e: "currentAudio example_player = Some 0" "0 < length (heap example_player)"
    "is_double (volume (heap example_player ! 0))" "volume (heap example_player ! 0) \<le> 1"
    "audible example_player"
    by (simp_all add: example_player_eq installed_audio_def is_double_def fl_three_quarters
        audible_def)
  have m: "currentAudio muted_player = Some 0" "0 < length (heap muted_player)"
    "is_double (volume (heap muted_player ! 0))" "volume (heap muted_player ! 0) \<le> 1"
    "\<not> audible muted_player"
    by (simp_all add: muted_player_facts is_double_def fl_zero audible_def)
  have "toggleAudioVolume example_player = mute example_player"
    using toggleAudioVolume_twice [OF e(1-4)] e(5) by (simp only: if_True)
  moreover have "audible (state_of (toggleAudioVolume (state_of (toggleAudioVolume example_player))))"
    using toggleAudioVolume_twice [OF e(1-4)] e(5) by blast
  moreover have "toggleAudioVolume muted_player = unmute muted_player"
    using toggleAudioVolume_twice [OF m(1-4)] m(5) by (simp only: if_False)
  moreover have "\<not> audible (state_of (toggleAudioVolume (state_of (toggleAudioVolume muted_player))))"
    using toggleAudioVolume_twice [OF m(1-4)] m(5) by blast
  ultimately show ?thesis
    using e m by blast
qed

end
